theory Spec2Isabelle
  imports Main "HOL-Library.Word" "HOL-Library.Log_Nat"
begin

section \<open>Python values used by \<^verbatim>\<open>scripts/generate-icons.py\<close>\<close>

text \<open>
  The script is Python glue around the Pillow imaging library. Exceptions are values of
  \<open>error\<close>; a call that can raise returns \<open>error + 'a\<close> with \<open>Inl\<close> for the exception.
\<close>

datatype error =
    SystemExit string
  | ValueError
  | OverflowError
  | IndexError
  | ZeroDivisionError
  | UnidentifiedImageError

subsection \<open>Floats\<close>

text \<open>
  A Python \<open>float\<close> is an IEEE 754 binary64 value. \<open>Finite q\<close> is the finite double whose
  value is the rational \<open>q\<close> (the sign of a zero is not kept: nothing in the script observes
  it). Arithmetic computes the exact rational result and rounds it to the nearest double,
  ties to even, with 53 bits of precision, gradual underflow below \<open>2 powi (-1022)\<close> and
  overflow to an infinity from \<open>2 ^ 1024\<close>.
\<close>

datatype pyfloat = Finite rat | PosInf | NegInf | NaN

definition ilog2 :: "rat \<Rightarrow> int" where
  \<comment> \<open>the binary exponent \<open>\<lfloor>log\<^sub>2 x\<rfloor>\<close> of a positive rational\<close>
  "ilog2 x = (let (p, q) = quotient_of x; d = bitlen p - bitlen q
              in if 2 powi d \<le> x then d else d - 1)"

definition round_half_even :: "rat \<Rightarrow> int" where
  "round_half_even y =
     (let n = \<lfloor>y\<rfloor>; d = y - of_int n
      in if d < 1 / 2 then n else if 1 / 2 < d then n + 1
         else if even n then n else n + 1)"

definition ulp :: "rat \<Rightarrow> rat" where
  \<comment> \<open>the distance between neighbouring doubles at the magnitude of \<open>x\<close>\<close>
  "ulp x = 2 powi (max (ilog2 \<bar>x\<bar>) (- 1022) - 52)"

definition round_double :: "rat \<Rightarrow> pyfloat" where
  "round_double x =
     (if x = 0 then Finite 0
      else let u = ulp x;
               r = of_int (round_half_even (x / u)) * u
           in if 2 ^ 1024 \<le> r then PosInf
              else if r \<le> - (2 ^ 1024) then NegInf
              else Finite r)"

definition float_of_int :: "int \<Rightarrow> error + pyfloat" where
  \<comment> \<open>the implicit conversion of an \<open>int\<close> operand: correctly rounded, OverflowError when
      the integer is too large for a double\<close>
  "float_of_int n =
     (case round_double (of_int n) of
        Finite q \<Rightarrow> Inr (Finite q)
      | _ \<Rightarrow> Inl OverflowError)"

fun float_mul :: "pyfloat \<Rightarrow> pyfloat \<Rightarrow> pyfloat" where
  "float_mul NaN _ = NaN"
| "float_mul _ NaN = NaN"
| "float_mul (Finite a) (Finite b) = round_double (a * b)"
| "float_mul (Finite a) PosInf = (if a = 0 then NaN else if 0 < a then PosInf else NegInf)"
| "float_mul (Finite a) NegInf = (if a = 0 then NaN else if 0 < a then NegInf else PosInf)"
| "float_mul PosInf (Finite b) = (if b = 0 then NaN else if 0 < b then PosInf else NegInf)"
| "float_mul NegInf (Finite b) = (if b = 0 then NaN else if 0 < b then NegInf else PosInf)"
| "float_mul PosInf PosInf = PosInf"
| "float_mul PosInf NegInf = NegInf"
| "float_mul NegInf PosInf = NegInf"
| "float_mul NegInf NegInf = PosInf"

definition py_mul_int_float :: "int \<Rightarrow> pyfloat \<Rightarrow> error + pyfloat" where
  \<comment> \<open>\<^verbatim>\<open>n * f\<close> with \<open>n\<close> an int and \<open>f\<close> a float\<close>
  "py_mul_int_float n f =
     (case float_of_int n of Inl e \<Rightarrow> Inl e | Inr a \<Rightarrow> Inr (float_mul a f))"

definition py_truediv :: "int \<Rightarrow> int \<Rightarrow> error + pyfloat" where
  \<comment> \<open>\<^verbatim>\<open>a / b\<close> on ints: the correctly rounded quotient\<close>
  "py_truediv a b =
     (if b = 0 then Inl ZeroDivisionError
      else case round_double (of_int a / of_int b) of
             Finite q \<Rightarrow> Inr (Finite q)
           | _ \<Rightarrow> Inl OverflowError)"

fun py_int :: "pyfloat \<Rightarrow> error + int" where
  \<comment> \<open>\<^verbatim>\<open>int(f)\<close>: truncation towards zero\<close>
  "py_int (Finite q) = Inr (if 0 \<le> q then \<lfloor>q\<rfloor> else \<lceil>q\<rceil>)"
| "py_int PosInf = Inl OverflowError"
| "py_int NegInf = Inl OverflowError"
| "py_int NaN = Inl ValueError"

definition int_of_product :: "int \<Rightarrow> pyfloat \<Rightarrow> error + int" where
  \<comment> \<open>\<^verbatim>\<open>int(n * f)\<close>, the expression of lines 81 and 91\<close>
  "int_of_product n f =
     (case py_mul_int_float n f of Inl e \<Rightarrow> Inl e | Inr t \<Rightarrow> py_int t)"

fun py_last :: "'a list \<Rightarrow> error + 'a" where
  \<comment> \<open>\<^verbatim>\<open>xs[-1]\<close>\<close>
  "py_last [] = Inl IndexError"
| "py_last xs = Inr (last xs)"

section \<open>Images and the Pillow operations the script calls\<close>

text \<open>
  An image has a width, a height and a pixel at every coordinate; only the pixels with
  \<open>0 \<le> x < width\<close> and \<open>0 \<le> y < height\<close> belong to it. The script works on
  \<^verbatim>\<open>RGBA\<close> images (\<^verbatim>\<open>Image.open(src).convert("RGBA")\<close>) with 8-bit channels and on one
  single-channel \<^verbatim>\<open>L\<close> mask.
\<close>

type_synonym uint8 = "8 word"

record rgba =
  red :: uint8
  green :: uint8
  blue :: uint8
  alpha :: uint8

record 'p image =
  width :: int
  height :: int
  px :: "int \<Rightarrow> int \<Rightarrow> 'p"

definition transparent :: rgba where
  "transparent = \<lparr>red = 0, green = 0, blue = 0, alpha = 0\<rparr>"

definition inside :: "'p image \<Rightarrow> int \<Rightarrow> int \<Rightarrow> bool" where
  "inside im x y \<longleftrightarrow> 0 \<le> x \<and> x < width im \<and> 0 \<le> y \<and> y < height im"

type_synonym path = "string list"

datatype content = Binary "uint8 list" | Text string

text \<open>
  What Pillow computes and the script only passes on is a parameter of the model: the
  Lanczos resampling filter (the pixel of the resized image at a coordinate), the pixels
  covered by a rounded rectangle, the PNG and ICO encoders and the decoder behind
  \<^verbatim>\<open>Image.open(src).convert("RGBA")\<close>.
\<close>

record pil =
  lanczos :: "rgba image \<Rightarrow> int \<times> int \<Rightarrow> int \<Rightarrow> int \<Rightarrow> rgba"
  covers :: "int \<times> int \<times> int \<times> int \<Rightarrow> int \<Rightarrow> int \<Rightarrow> int \<Rightarrow> bool"
  png_encode :: "rgba image \<Rightarrow> uint8 list"
  ico_encode :: "rgba image \<Rightarrow> (int \<times> int) list \<Rightarrow> uint8 list"
  open_rgba :: "content \<Rightarrow> error + rgba image"

text \<open>
  The state of a run: the image objects allocated so far (Python variables hold references
  to them, and \<^verbatim>\<open>paste\<close> changes an object in place), the files written, in order, and the
  lines printed.
\<close>

record state =
  objs :: "nat \<Rightarrow> rgba image"
  next_ref :: nat
  written :: "(path \<times> content) list"
  stdout :: "string list"

definition alloc :: "rgba image \<Rightarrow> state \<Rightarrow> (error + nat) \<times> state" where
  "alloc im s =
     (Inr (next_ref s), s\<lparr>objs := (objs s)(next_ref s := im), next_ref := Suc (next_ref s)\<rparr>)"

subsection \<open>Pillow: \<^verbatim>\<open>Image.new\<close>, \<^verbatim>\<open>Image.resize\<close>, \<^verbatim>\<open>Image.paste\<close>, \<^verbatim>\<open>ImageDraw\<close>\<close>

definition Image_new :: "int \<times> int \<Rightarrow> rgba \<Rightarrow> state \<Rightarrow> (error + nat) \<times> state" where
  \<comment> \<open>\<^verbatim>\<open>Image.new("RGBA", size, color)\<close>: a fresh image filled with one colour\<close>
  "Image_new sz color s =
     (if fst sz < 0 \<or> snd sz < 0 then (Inl ValueError, s)
      else alloc \<lparr>width = fst sz, height = snd sz, px = (\<lambda>x y. color)\<rparr> s)"

definition Image_new_L :: "int \<times> int \<Rightarrow> uint8 \<Rightarrow> error + uint8 image" where
  \<comment> \<open>\<^verbatim>\<open>Image.new("L", size, color)\<close>; the mask stays local to \<^verbatim>\<open>rounded\<close>\<close>
  "Image_new_L sz color =
     (if fst sz < 0 \<or> snd sz < 0 then Inl ValueError
      else Inr \<lparr>width = fst sz, height = snd sz, px = (\<lambda>x y. color)\<rparr>)"

definition resize :: "pil \<Rightarrow> nat \<Rightarrow> int \<times> int \<Rightarrow> state \<Rightarrow> (error + nat) \<times> state" where
  \<comment> \<open>\<^verbatim>\<open>im.resize(size, Image.LANCZOS)\<close>: a new image; a copy when the size is unchanged;
      ValueError ("height and width must be > 0") when a requested side is below 1\<close>
  "resize P im sz s =
     (let src = objs s im in
      if (width src, height src) = sz then alloc src s
      else if fst sz < 1 \<or> snd sz < 1 then (Inl ValueError, s)
      else alloc \<lparr>width = fst sz, height = snd sz, px = lanczos P src sz\<rparr> s)"

definition resized_image :: "pil \<Rightarrow> rgba image \<Rightarrow> int \<times> int \<Rightarrow> rgba image" where
  \<comment> \<open>the image a successful \<^verbatim>\<open>resize\<close> allocates\<close>
  "resized_image P src sz =
     (if (width src, height src) = sz then src
      else \<lparr>width = fst sz, height = snd sz, px = lanczos P src sz\<rparr>)"

definition BLEND8 :: "uint8 \<Rightarrow> uint8 \<Rightarrow> uint8 \<Rightarrow> uint8" where
  \<comment> \<open>Pillow's \<^verbatim>\<open>BLEND8(mask, in1, in2)\<close> = \<^verbatim>\<open>DIV255(in1 * (255 - mask) + in2 * mask)\<close>,
      with \<^verbatim>\<open>DIV255(a) = (((a + 128) >> 8) + (a + 128)) >> 8\<close>\<close>
  "BLEND8 m in1 in2 =
     (let tmp = unat in1 * (255 - unat m) + unat in2 * unat m + 128
      in of_nat ((tmp div 256 + tmp) div 256))"

definition blend :: "uint8 \<Rightarrow> rgba \<Rightarrow> rgba \<Rightarrow> rgba" where
  \<comment> \<open>every band of the pixel is blended with the same mask value\<close>
  "blend m out inp =
     \<lparr>red = BLEND8 m (red out) (red inp), green = BLEND8 m (green out) (green inp),
      blue = BLEND8 m (blue out) (blue inp), alpha = BLEND8 m (alpha out) (alpha inp)\<rparr>"

definition ImagingPaste ::
  "rgba image \<Rightarrow> rgba image \<Rightarrow> uint8 image \<Rightarrow> int \<times> int \<Rightarrow> rgba image" where
  \<comment> \<open>the pasted box is clipped to the destination; inside it each pixel is blended\<close>
  "ImagingPaste out inp m off =
     out\<lparr>px := (\<lambda>x y.
        if inside out x y \<and> inside inp (x - fst off) (y - snd off)
        then blend (px m (x - fst off) (y - snd off)) (px out x y)
               (px inp (x - fst off) (y - snd off))
        else px out x y)\<rparr>"

datatype mask = MaskL "uint8 image" | MaskRGBA nat

definition mask_band :: "state \<Rightarrow> mask \<Rightarrow> uint8 image" where
  \<comment> \<open>an \<^verbatim>\<open>L\<close> mask is used as it is, an \<^verbatim>\<open>RGBA\<close> mask through its alpha band\<close>
  "mask_band s m =
     (case m of
        MaskL im \<Rightarrow> im
      | MaskRGBA r \<Rightarrow>
          \<lparr>width = width (objs s r), height = height (objs s r),
           px = (\<lambda>x y. alpha (px (objs s r) x y))\<rparr>)"

definition paste :: "nat \<Rightarrow> nat \<Rightarrow> int \<times> int \<Rightarrow> mask \<Rightarrow> state \<Rightarrow> (error + unit) \<times> state" where
  \<comment> \<open>\<^verbatim>\<open>out.paste(im, offset, mask)\<close>: changes the object \<open>out\<close> in place; ValueError
      ("images do not match") when the mask has another size than the pasted image\<close>
  "paste out im off m s =
     (let mb = mask_band s m in
      if (width mb, height mb) \<noteq> (width (objs s im), height (objs s im))
      then (Inl ValueError, s)
      else (Inr (), s\<lparr>objs := (objs s)(out := ImagingPaste (objs s out) (objs s im) mb off)\<rparr>))"

definition rounded_rectangle ::
  "pil \<Rightarrow> uint8 image \<Rightarrow> int \<times> int \<times> int \<times> int \<Rightarrow> int \<Rightarrow> uint8 \<Rightarrow> uint8 image" where
  \<comment> \<open>\<^verbatim>\<open>ImageDraw.Draw(mask).rounded_rectangle(box, radius=r, fill=v)\<close>: every covered pixel
      of the image is set to the fill value, the others are left\<close>
  "rounded_rectangle P m box r v =
     m\<lparr>px := (\<lambda>x y. if inside m x y \<and> covers P box r x y then v else px m x y)\<rparr>"

section \<open>The transforms of the script\<close>

definition rounded :: "pil \<Rightarrow> nat \<Rightarrow> pyfloat \<Rightarrow> state \<Rightarrow> (error + nat) \<times> state" where
  "rounded P img radius_frac s =
     (let w = width (objs s img); h = height (objs s img) in
      case int_of_product (min w h) radius_frac of
        Inl e \<Rightarrow> (Inl e, s)
      | Inr r \<Rightarrow>
     (case Image_new_L (w, h) 0 of
        Inl e \<Rightarrow> (Inl e, s)
      | Inr mask0 \<Rightarrow>
     (let mask1 = rounded_rectangle P mask0 (0, 0, w, h) r 255 in
      case Image_new (w, h) transparent s of
        (Inl e, s1) \<Rightarrow> (Inl e, s1)
      | (Inr out, s1) \<Rightarrow>
     (case paste out img (0, 0) (MaskL mask1) s1 of
        (Inl e, s2) \<Rightarrow> (Inl e, s2)
      | (Inr u, s2) \<Rightarrow> (Inr out, s2)))))"

definition padded :: "pil \<Rightarrow> nat \<Rightarrow> int \<Rightarrow> pyfloat \<Rightarrow> state \<Rightarrow> (error + nat) \<times> state" where
  "padded P img canvas_size scale s =
     (case Image_new (canvas_size, canvas_size) transparent s of
        (Inl e, s1) \<Rightarrow> (Inl e, s1)
      | (Inr canvas, s1) \<Rightarrow>
     (case int_of_product canvas_size scale of
        Inl e \<Rightarrow> (Inl e, s1)
      | Inr inner \<Rightarrow>
     (case resize P img (inner, inner) s1 of
        (Inl e, s2) \<Rightarrow> (Inl e, s2)
      | (Inr resized, s2) \<Rightarrow>
     (let offset = ((canvas_size - inner) div 2, (canvas_size - inner) div 2) in
      case paste canvas resized offset (MaskRGBA resized) s2 of
        (Inl e, s3) \<Rightarrow> (Inl e, s3)
      | (Inr u, s3) \<Rightarrow> (Inr canvas, s3)))))"

definition pasted_canvas :: "int \<Rightarrow> rgba image \<Rightarrow> rgba image" where
  \<comment> \<open>the canvas \<^verbatim>\<open>padded\<close> returns, for the resized image \<open>R\<close> it pastes\<close>
  "pasted_canvas S R =
     ImagingPaste \<lparr>width = S, height = S, px = (\<lambda>x y. transparent)\<rparr> R
       \<lparr>width = width R, height = height R, px = (\<lambda>x y. alpha (px R x y))\<rparr>
       ((S - width R) div 2, (S - width R) div 2)"

definition rounded_image :: "pil \<Rightarrow> rgba image \<Rightarrow> int \<Rightarrow> rgba image" where
  \<comment> \<open>the image \<^verbatim>\<open>rounded\<close> returns, for the radius \<open>r\<close> it passes to the rasteriser\<close>
  "rounded_image P im r =
     ImagingPaste \<lparr>width = width im, height = height im, px = (\<lambda>x y. transparent)\<rparr> im
       (rounded_rectangle P \<lparr>width = width im, height = height im, px = (\<lambda>x y. 0)\<rparr>
          (0, 0, width im, height im) r 255)
       (0, 0)"

section \<open>Files, printing and sequencing\<close>

definition render :: "path \<Rightarrow> string" where
  \<comment> \<open>\<^verbatim>\<open>str(path)\<close> of an absolute path, given by its components\<close>
  "render p = concat (map (\<lambda>c. ''/'' @ c) p)"

definition write_file :: "path \<Rightarrow> content \<Rightarrow> state \<Rightarrow> state" where
  "write_file dest c s = s\<lparr>written := written s @ [(dest, c)]\<rparr>"

definition print_line :: "string \<Rightarrow> state \<Rightarrow> state" where
  "print_line l s = s\<lparr>stdout := stdout s @ [l]\<rparr>"

definition ensure_parent :: "path \<Rightarrow> state \<Rightarrow> state" where
  \<comment> \<open>\<^verbatim>\<open>path.parent.mkdir(parents=True, exist_ok=True)\<close>: directories are not part of the
      state, and creating them is taken to succeed\<close>
  "ensure_parent dest s = s"

definition bind ::
  "(state \<Rightarrow> (error + 'a) \<times> state) \<Rightarrow> ('a \<Rightarrow> state \<Rightarrow> (error + 'b) \<times> state) \<Rightarrow>
   state \<Rightarrow> (error + 'b) \<times> state" where
  \<comment> \<open>one statement after another: an exception ends the run with the state reached\<close>
  "bind m f s = (case m s of (Inl e, s1) \<Rightarrow> (Inl e, s1) | (Inr x, s1) \<Rightarrow> f x s1)"

definition raise :: "error + 'a \<Rightarrow> state \<Rightarrow> (error + 'a) \<times> state" where
  \<comment> \<open>a computation without effect on the state\<close>
  "raise r s = (r, s)"

fun for_each ::
  "('a \<Rightarrow> state \<Rightarrow> (error + unit) \<times> state) \<Rightarrow> 'a list \<Rightarrow> state \<Rightarrow> (error + unit) \<times> state" where
  "for_each f [] s = (Inr (), s)"
| "for_each f (x # xs) s =
     (case f x s of (Inl e, s1) \<Rightarrow> (Inl e, s1) | (Inr u, s1) \<Rightarrow> for_each f xs s1)"

subsection \<open>Text: decimal numbers and base64\<close>

definition digit :: "nat \<Rightarrow> char" where
  "digit n = ''0123456789'' ! n"

fun dec :: "nat \<Rightarrow> string" where
  "dec n = (if n < 10 then [digit n] else dec (n div 10) @ [digit (n mod 10)])"

declare dec.simps [simp del]

definition format_int :: "int \<Rightarrow> string" where
  \<comment> \<open>\<^verbatim>\<open>f"{n}"\<close> for an int\<close>
  "format_int i = (if i < 0 then ''-'' @ dec (nat (- i)) else dec (nat i))"

definition b64chars :: string where
  "b64chars = ''ABCDEFGHIJKLMNOPQRSTUVWXYZabcdefghijklmnopqrstuvwxyz0123456789+/''"

definition b64char :: "nat \<Rightarrow> char" where
  "b64char n = b64chars ! n"

fun b64encode :: "uint8 list \<Rightarrow> string" where
  \<comment> \<open>\<^verbatim>\<open>base64.b64encode(bytes).decode("ascii")\<close>\<close>
  "b64encode [] = []"
| "b64encode [a] =
     [b64char (unat a div 4), b64char (unat a mod 4 * 16), CHR ''='', CHR ''='']"
| "b64encode [a, b] =
     [b64char (unat a div 4), b64char (unat a mod 4 * 16 + unat b div 16),
      b64char (unat b mod 16 * 4), CHR ''='']"
| "b64encode (a # b # c # rest) =
     [b64char (unat a div 4), b64char (unat a mod 4 * 16 + unat b div 16),
      b64char (unat b mod 16 * 4 + unat c div 64), b64char (unat c mod 64)]
     @ b64encode rest"

section \<open>The encoders of the script\<close>

definition save_png :: "pil \<Rightarrow> nat \<Rightarrow> path \<Rightarrow> state \<Rightarrow> (error + unit) \<times> state" where
  "save_png P img dest s =
     (let s1 = ensure_parent dest s;
          s2 = write_file dest (Binary (png_encode P (objs s1 img))) s1
      in (Inr (), print_line (''png -> '' @ render dest) s2))"

fun resize_all :: "pil \<Rightarrow> nat \<Rightarrow> int list \<Rightarrow> state \<Rightarrow> (error + nat list) \<times> state" where
  \<comment> \<open>\<^verbatim>\<open>[base.resize((s, s), Image.LANCZOS) for s in sizes]\<close>\<close>
  "resize_all P base [] s = (Inr [], s)"
| "resize_all P base (x # xs) s =
     (case resize P base (x, x) s of
        (Inl e, s1) \<Rightarrow> (Inl e, s1)
      | (Inr r, s1) \<Rightarrow>
          (case resize_all P base xs s1 of
             (Inl e, s2) \<Rightarrow> (Inl e, s2)
           | (Inr rs, s2) \<Rightarrow> (Inr (r # rs), s2)))"

definition save_ico :: "pil \<Rightarrow> nat \<Rightarrow> path \<Rightarrow> int list \<Rightarrow> state \<Rightarrow> (error + unit) \<times> state" where
  "save_ico P base dest sizes s =
     (let s0 = ensure_parent dest s in
      case resize_all P base sizes s0 of
        (Inl e, s1) \<Rightarrow> (Inl e, s1)
      | (Inr imgs, s1) \<Rightarrow>
     (case py_last imgs of
        Inl e \<Rightarrow> (Inl e, s1)
      | Inr l \<Rightarrow>
     (let s2 = write_file dest
                 (Binary (ico_encode P (objs s1 l) (map (\<lambda>x. (x, x)) sizes))) s1
      in (Inr (), print_line (''ico -> '' @ render dest) s2))))"

definition default_sizes :: "int list" where
  "default_sizes = [16, 32, 48, 64]"

definition apos :: string where
  \<comment> \<open>the quote character that delimits the attribute values\<close>
  "apos = [CHR 0x27]"

definition svg_text :: "string \<Rightarrow> string \<Rightarrow> string \<Rightarrow> string" where
  \<comment> \<open>the f-string of lines 69 to 74, for the decimal width and height and the payload\<close>
  "svg_text w h b64 =
     ''<svg xmlns='http://www.w3.org/2000/svg' width='' @ apos @ w @ apos
       @ '' height='' @ apos @ h @ apos
       @ '' viewBox='0 0 '' @ w @ '' '' @ h @ apos @ ''>''
     @ ''<image href='data:image/png;base64,'' @ b64 @ apos
       @ '' width='' @ apos @ w @ apos @ '' height='' @ apos @ h @ apos @ ''/>''
     @ ''<style>@media (prefers-color-scheme: light){:root{filter:none;}}''
     @ ''@media (prefers-color-scheme: dark){:root{filter:none;}}</style>''
     @ ''</svg>''"

definition save_svg_from_png :: "pil \<Rightarrow> nat \<Rightarrow> path \<Rightarrow> state \<Rightarrow> (error + unit) \<times> state" where
  "save_svg_from_png P img dest s =
     (let s1 = ensure_parent dest s;
          buf = png_encode P (objs s1 img);
          b64 = b64encode buf;
          svg = svg_text (format_int (width (objs s1 img)))
                  (format_int (height (objs s1 img))) b64;
          s2 = write_file dest (Text svg) s1
      in (Inr (), print_line (''svg -> '' @ render dest) s2))"

section \<open>\<^verbatim>\<open>main\<close>\<close>

text \<open>
  \<open>ROOT\<close> is the repository root (\<^verbatim>\<open>Path(__file__).resolve().parents[1]\<close>), \<open>disk\<close> the
  file system the run starts on, and \<open>args\<close> the parsed command line with the source path
  already resolved. The numbered parts of \<^verbatim>\<open>main\<close> are definitions of their own.
\<close>

record args =
  source :: path
  radius :: pyfloat

definition branding :: "pil \<Rightarrow> path \<Rightarrow> nat \<Rightarrow> state \<Rightarrow> (error + unit) \<times> state" where
  "branding P ROOT base =
     bind (save_png P base (ROOT @ [''packages'', ''branding'', ''icons'', ''tasktrove-icon.png'']))
       (\<lambda>u. save_svg_from_png P base
              (ROOT @ [''packages'', ''branding'', ''icons'', ''tasktrove-icon.svg'']))"

definition public_targets :: "path \<Rightarrow> path list" where
  "public_targets ROOT =
     [ROOT @ [''apps'', ''import.pro'', ''public'', ''tasktrove-icon.svg''],
      ROOT @ [''apps'', ''docs.pro'', ''docs'', ''public'', ''tasktrove-icon.svg'']]"

definition public_copies :: "pil \<Rightarrow> path \<Rightarrow> nat \<Rightarrow> state \<Rightarrow> (error + unit) \<times> state" where
  "public_copies P ROOT base =
     for_each (\<lambda>dest. save_svg_from_png P base dest) (public_targets ROOT)"

definition icon0_targets :: "path \<Rightarrow> path list" where
  "icon0_targets ROOT =
     [ROOT @ [''apps'', ''web'', ''app'', ''icon0.svg''],
      ROOT @ [''apps'', ''web.pro'', ''app'', ''icon0.svg''],
      ROOT @ [''apps'', ''mobile.pro'', ''app'', ''icon0.svg'']]"

definition icon_rounded_targets :: "path \<Rightarrow> path list" where
  "icon_rounded_targets ROOT =
     [ROOT @ [''apps'', ''web'', ''app'', ''icon-rounded.svg''],
      ROOT @ [''apps'', ''web.pro'', ''app'', ''icon-rounded.svg''],
      ROOT @ [''apps'', ''mobile.pro'', ''app'', ''icon-rounded.svg''],
      ROOT @ [''apps'', ''web'', ''public'', ''icon-rounded.svg''],
      ROOT @ [''apps'', ''web.pro'', ''public'', ''icon-rounded.svg''],
      ROOT @ [''apps'', ''mobile.pro'', ''public'', ''icon-rounded.svg'']]"

definition app_icons :: "pil \<Rightarrow> path \<Rightarrow> nat \<Rightarrow> nat \<Rightarrow> state \<Rightarrow> (error + unit) \<times> state" where
  "app_icons P ROOT base rounded_img =
     bind (for_each (\<lambda>dest. save_svg_from_png P base dest) (icon0_targets ROOT))
       (\<lambda>u. for_each (\<lambda>dest. save_svg_from_png P rounded_img dest) (icon_rounded_targets ROOT))"

definition png_sizes :: "path \<Rightarrow> (path \<times> int) list" where
  "png_sizes ROOT =
     [(ROOT @ [''apps'', ''web'', ''app'', ''icon1.png''], 96),
      (ROOT @ [''apps'', ''mobile.pro'', ''app'', ''icon1.png''], 96),
      (ROOT @ [''apps'', ''mobile.pro'', ''app'', ''icon.png''], 96),
      (ROOT @ [''apps'', ''web'', ''app'', ''apple-icon.png''], 180),
      (ROOT @ [''apps'', ''mobile.pro'', ''app'', ''apple-icon.png''], 180)]"

definition sized_pngs :: "pil \<Rightarrow> path \<Rightarrow> nat \<Rightarrow> state \<Rightarrow> (error + unit) \<times> state" where
  "sized_pngs P ROOT base =
     for_each (\<lambda>(dest, size). bind (resize P base (size, size)) (\<lambda>r. save_png P r dest))
       (png_sizes ROOT)"

definition favicon_targets :: "path \<Rightarrow> path list" where
  "favicon_targets ROOT =
     [ROOT @ [''apps'', ''web'', ''app'', ''favicon.ico''],
      ROOT @ [''apps'', ''import.pro'', ''app'', ''favicon.ico''],
      ROOT @ [''apps'', ''mobile.pro'', ''app'', ''favicon.ico'']]"

definition favicons :: "pil \<Rightarrow> path \<Rightarrow> nat \<Rightarrow> state \<Rightarrow> (error + unit) \<times> state" where
  "favicons P ROOT base =
     for_each (\<lambda>dest. save_ico P base dest default_sizes) (favicon_targets ROOT)"

definition classic :: "(string \<times> int) list" where
  "classic = [(''mipmap-mdpi'', 48), (''mipmap-hdpi'', 72), (''mipmap-xhdpi'', 96),
              (''mipmap-xxhdpi'', 144), (''mipmap-xxxhdpi'', 192)]"

definition foreground :: "(string \<times> int) list" where
  "foreground = [(''mipmap-mdpi'', 108), (''mipmap-hdpi'', 162), (''mipmap-xhdpi'', 216),
                 (''mipmap-xxhdpi'', 324), (''mipmap-xxxhdpi'', 432)]"

definition res_root :: "path \<Rightarrow> path" where
  "res_root ROOT = ROOT @ [''apps'', ''mobile.pro'', ''android'', ''app'', ''src'', ''main'', ''res'']"

definition launcher_bitmaps :: "pil \<Rightarrow> path \<Rightarrow> nat \<Rightarrow> state \<Rightarrow> (error + unit) \<times> state" where
  "launcher_bitmaps P ROOT base =
     bind (for_each (\<lambda>(folder, size).
             bind (raise (py_truediv 2 3)) (\<lambda>scale.
             bind (padded P base size scale) (\<lambda>icon.
             for_each (\<lambda>name. save_png P icon (res_root ROOT @ [folder, name]))
               [''ic_launcher.png'', ''ic_launcher_round.png''])))
           classic)
       (\<lambda>u. for_each (\<lambda>(folder, size).
             bind (raise (py_truediv 2 3)) (\<lambda>scale.
             bind (padded P base size scale) (\<lambda>icon.
             save_png P icon (res_root ROOT @ [folder, ''ic_launcher_foreground.png'']))))
           foreground)"

definition fg_xml_content :: string where
  "fg_xml_content =
     ''<bitmap xmlns:android=\"http://schemas.android.com/apk/res/android\"\<newline>''
     @ ''    android:src=\"@mipmap/ic_launcher_foreground\"\<newline>''
     @ ''    android:gravity=\"center\" />''"

definition bg_xml_content :: string where
  "bg_xml_content =
     ''<?xml version=\"1.0\" encoding=\"utf-8\"?>\<newline>''
     @ ''<vector xmlns:android=\"http://schemas.android.com/apk/res/android\"\<newline>''
     @ ''    android:width=\"108dp\"\<newline>''
     @ ''    android:height=\"108dp\"\<newline>''
     @ ''    android:viewportHeight=\"108\"\<newline>''
     @ ''    android:viewportWidth=\"108\">\<newline>''
     @ ''    <path android:fillColor=\"#FFFFFFFF\" android:pathData=\"M0,0h108v108h-108z\" />\<newline>''
     @ ''</vector>''"

definition write_xml :: "path \<Rightarrow> string \<Rightarrow> state \<Rightarrow> (error + unit) \<times> state" where
  \<comment> \<open>\<^verbatim>\<open>ensure_parent(p); p.write_text(text); print(f"xml -> {p}")\<close>\<close>
  "write_xml dest text s =
     (let s1 = ensure_parent dest s;
          s2 = write_file dest (Text text) s1
      in (Inr (), print_line (''xml -> '' @ render dest) s2))"

definition xml_helpers :: "path \<Rightarrow> state \<Rightarrow> (error + unit) \<times> state" where
  "xml_helpers ROOT =
     bind (write_xml (res_root ROOT @ [''drawable-v24'', ''ic_launcher_foreground.xml''])
             fg_xml_content)
       (\<lambda>u. write_xml (res_root ROOT @ [''drawable'', ''ic_launcher_background.xml''])
                bg_xml_content)"

definition notification_glyph :: "pil \<Rightarrow> nat \<Rightarrow> state \<Rightarrow> (error + nat) \<times> state" where
  \<comment> \<open>lines 196 to 201: the image \<^verbatim>\<open>notif\<close>\<close>
  "notification_glyph P base =
     (let notif_canvas = 96; notif_inner = 96 in
      bind (Image_new (notif_canvas, notif_canvas) transparent) (\<lambda>notif.
      bind (resize P base (notif_inner, notif_inner)) (\<lambda>glyph.
      let off = ((notif_canvas - notif_inner) div 2, (notif_canvas - notif_inner) div 2) in
      bind (paste notif glyph off (MaskRGBA glyph)) (\<lambda>u.
      raise (Inr notif)))))"

definition notification :: "pil \<Rightarrow> path \<Rightarrow> nat \<Rightarrow> state \<Rightarrow> (error + unit) \<times> state" where
  "notification P ROOT base =
     bind (notification_glyph P base)
       (\<lambda>notif. save_png P notif (res_root ROOT @ [''drawable'', ''ic_stat_tasktrove.png'']))"

definition generate :: "pil \<Rightarrow> path \<Rightarrow> nat \<Rightarrow> nat \<Rightarrow> state \<Rightarrow> (error + unit) \<times> state" where
  \<comment> \<open>lines 107 to 204, in the order of the script\<close>
  "generate P ROOT base rounded_img =
     bind (branding P ROOT base) (\<lambda>u.
     bind (public_copies P ROOT base) (\<lambda>u.
     bind (app_icons P ROOT base rounded_img) (\<lambda>u.
     bind (sized_pngs P ROOT base) (\<lambda>u.
     bind (favicons P ROOT base) (\<lambda>u.
     bind (launcher_bitmaps P ROOT base) (\<lambda>u.
     bind (xml_helpers ROOT) (\<lambda>u.
     bind (notification P ROOT base) (\<lambda>u.
     (\<lambda>s. (Inr (), print_line ''done'' s))))))))))"

definition main ::
  "pil \<Rightarrow> path \<Rightarrow> (path \<rightharpoonup> content) \<Rightarrow> args \<Rightarrow> state \<Rightarrow> (error + unit) \<times> state" where
  "main P ROOT disk a =
     (let src = source a in
      case disk src of
        None \<Rightarrow> raise (Inl (SystemExit (''Source not found: '' @ render src)))
      | Some c \<Rightarrow>
          bind (\<lambda>s. case open_rgba P c of Inl e \<Rightarrow> (Inl e, s) | Inr im \<Rightarrow> alloc im s) (\<lambda>base.
          bind (rounded P base (radius a)) (\<lambda>rounded_img.
          generate P ROOT base rounded_img)))"

definition initial :: state where
  \<comment> \<open>a fresh process: no image object, nothing written, nothing printed\<close>
  "initial = \<lparr>objs = (\<lambda>r. \<lparr>width = 0, height = 0, px = (\<lambda>x y. transparent)\<rparr>),
              next_ref = 0, written = [], stdout = []\<rparr>"

definition exit_status :: "error + unit \<Rightarrow> int" where
  \<comment> \<open>the status of the process: 0 on return, 1 on \<^verbatim>\<open>SystemExit(message)\<close> and on every
      other uncaught exception\<close>
  "exit_status r = (case r of Inr u \<Rightarrow> 0 | Inl e \<Rightarrow> 1)"

section \<open>Reading the vector wrapper back\<close>

text \<open>
  To say what an SVG file declares and what its payload decodes to, the document is read
  back: attribute values are the texts between single quotes, numbers are decimal, and the
  payload is decoded from base64.
\<close>

fun index_of :: "'a \<Rightarrow> 'a list \<Rightarrow> nat option" where
  \<comment> \<open>the position of the first occurrence\<close>
  "index_of x [] = None"
| "index_of x (y # ys) = (if x = y then Some 0 else map_option Suc (index_of x ys))"

definition b64val :: "char \<Rightarrow> nat option" where
  \<comment> \<open>the value of a base64 character\<close>
  "b64val c = index_of c b64chars"

fun b64decode :: "string \<Rightarrow> uint8 list option" where
  \<comment> \<open>\<^verbatim>\<open>base64.b64decode\<close> on the standard alphabet, with \<^verbatim>\<open>=\<close> padding\<close>
  "b64decode (a # b # c # d # rest) =
     (case (b64val a, b64val b) of
        (Some x, Some y) \<Rightarrow>
          if rest = [] \<and> c = CHR ''='' \<and> d = CHR ''=''
          then Some [of_nat (x * 4 + y div 16)]
          else (case b64val c of
             None \<Rightarrow> None
           | Some z \<Rightarrow>
               if rest = [] \<and> d = CHR ''=''
               then Some [of_nat (x * 4 + y div 16), of_nat (y mod 16 * 16 + z div 4)]
               else (case (b64val d, b64decode rest) of
                  (Some w, Some bs) \<Rightarrow>
                    Some (of_nat (x * 4 + y div 16) # of_nat (y mod 16 * 16 + z div 4)
                          # of_nat (z mod 4 * 64 + w) # bs)
                | _ \<Rightarrow> None))
      | _ \<Rightarrow> None)"
| "b64decode [] = Some []"
| "b64decode _ = None"

fun split_on :: "char \<Rightarrow> string \<Rightarrow> string list" where
  \<comment> \<open>the pieces of a text between the occurrences of a separator\<close>
  "split_on c [] = [[]]"
| "split_on c (x # xs) =
     (if x = c then [] # split_on c xs
      else (case split_on c xs of y # ys \<Rightarrow> (x # y) # ys | [] \<Rightarrow> [[x]]))"

fun join :: "char \<Rightarrow> string list \<Rightarrow> string" where
  \<comment> \<open>the pieces put together again, with the separator between them\<close>
  "join c [] = []"
| "join c [s] = s"
| "join c (s # t # ts) = s @ c # join c (t # ts)"

definition attr_name :: "string \<Rightarrow> string" where
  \<comment> \<open>the attribute name that ends the text before an opening quote\<close>
  "attr_name before = takeWhile (\<lambda>c. c \<noteq> CHR ''='') (last (split_on CHR '' '' before))"

fun attributes :: "string list \<Rightarrow> (string \<times> string) list" where
  \<comment> \<open>names and quoted values, from the pieces between the quotes\<close>
  "attributes (before # v # rest) = (attr_name before, v) # attributes rest"
| "attributes _ = []"

definition attribute :: "string \<Rightarrow> string \<Rightarrow> string option" where
  \<comment> \<open>the value of the first attribute of that name in a document\<close>
  "attribute name text = map_of (attributes (split_on (CHR 0x27) text)) name"

definition digit_val :: "char \<Rightarrow> nat option" where
  \<comment> \<open>the value of a decimal digit\<close>
  "digit_val c = index_of c ''0123456789''"

fun read_digits :: "nat \<Rightarrow> string \<Rightarrow> nat option" where
  \<comment> \<open>a run of decimal digits as a number\<close>
  "read_digits acc [] = Some acc"
| "read_digits acc (c # cs) =
     (case digit_val c of None \<Rightarrow> None | Some d \<Rightarrow> read_digits (acc * 10 + d) cs)"

definition read_nat :: "string \<Rightarrow> nat option" where
  \<comment> \<open>a non-empty run of decimal digits as a number\<close>
  "read_nat s = (if s = [] then None else read_digits 0 s)"

definition read_int :: "string \<Rightarrow> int option" where
  \<comment> \<open>\<^verbatim>\<open>int(text)\<close> for a decimal number with an optional minus sign\<close>
  "read_int s =
     (if s \<noteq> [] \<and> hd s = CHR ''-'' then map_option (\<lambda>n. - int n) (read_nat (tl s))
      else map_option int (read_nat s))"

section \<open>The artifacts of a run\<close>

definition progress_line :: "string \<times> path \<times> content \<Rightarrow> string" where
  \<comment> \<open>the line printed after a write: the tag of the encoder, an arrow, the destination\<close>
  "progress_line a = (case a of (tag, dest, c) \<Rightarrow> tag @ '' -> '' @ render dest)"

definition png_file :: "pil \<Rightarrow> rgba image \<Rightarrow> content" where
  \<comment> \<open>what \<^verbatim>\<open>save_png\<close> writes for an image\<close>
  "png_file P im = Binary (png_encode P im)"

definition svg_file :: "pil \<Rightarrow> rgba image \<Rightarrow> content" where
  \<comment> \<open>what \<^verbatim>\<open>save_svg_from_png\<close> writes for an image\<close>
  "svg_file P im =
     Text (svg_text (format_int (width im)) (format_int (height im)) (b64encode (png_encode P im)))"

definition ico_file :: "pil \<Rightarrow> rgba image \<Rightarrow> content" where
  \<comment> \<open>what \<^verbatim>\<open>save_ico\<close> writes for a base image and the default sizes\<close>
  "ico_file P im =
     Binary (ico_encode P (resized_image P im (64, 64)) [(16, 16), (32, 32), (48, 48), (64, 64)])"

definition launcher_png :: "pil \<Rightarrow> rgba image \<Rightarrow> int \<Rightarrow> content" where
  \<comment> \<open>the launcher bitmap of a density: the base image padded into an \<open>S\<close> by \<open>S\<close> canvas at two thirds of its side\<close>
  "launcher_png P im S =
     png_file P (pasted_canvas S (resized_image P im (S * 2 div 3, S * 2 div 3)))"

definition manifest :: "pil \<Rightarrow> path \<Rightarrow> rgba image \<Rightarrow> rgba image \<Rightarrow> (string \<times> path \<times> content) list" where
  \<comment> \<open>every artifact of a run in the order it is written: tag, destination, content, for the base image \<open>B\<close> and its rounded variant \<open>RB\<close>\<close>
  "manifest P ROOT B RB =
     [(''png'', ROOT @ [''packages'', ''branding'', ''icons'', ''tasktrove-icon.png''], png_file P B),
      (''svg'', ROOT @ [''packages'', ''branding'', ''icons'', ''tasktrove-icon.svg''], svg_file P B)]
     @ map (\<lambda>dest. (''svg'', dest, svg_file P B)) (public_targets ROOT)
     @ map (\<lambda>dest. (''svg'', dest, svg_file P B)) (icon0_targets ROOT)
     @ map (\<lambda>dest. (''svg'', dest, svg_file P RB)) (icon_rounded_targets ROOT)
     @ map (\<lambda>(dest, size). (''png'', dest, png_file P (resized_image P B (size, size))))
         (png_sizes ROOT)
     @ map (\<lambda>dest. (''ico'', dest, ico_file P B)) (favicon_targets ROOT)
     @ concat (map (\<lambda>(folder, size).
         map (\<lambda>name. (''png'', res_root ROOT @ [folder, name], launcher_png P B size))
           [''ic_launcher.png'', ''ic_launcher_round.png'']) classic)
     @ map (\<lambda>(folder, size).
         (''png'', res_root ROOT @ [folder, ''ic_launcher_foreground.png''], launcher_png P B size))
         foreground
     @ [(''xml'', res_root ROOT @ [''drawable-v24'', ''ic_launcher_foreground.xml''],
         Text fg_xml_content),
        (''xml'', res_root ROOT @ [''drawable'', ''ic_launcher_background.xml''],
         Text bg_xml_content),
        (''png'', res_root ROOT @ [''drawable'', ''ic_stat_tasktrove.png''],
         png_file P (pasted_canvas 96 (resized_image P B (96, 96))))]"

definition keeps :: "(nat \<times> rgba image) list \<Rightarrow> state \<Rightarrow> bool" where
  \<comment> \<open>the listed references are allocated and hold the listed images\<close>
  "keeps R s \<longleftrightarrow> list_all (\<lambda>(r, im). r < next_ref s \<and> objs s r = im) R"

definition emits ::
  "(nat \<times> rgba image) list \<Rightarrow> (state \<Rightarrow> (error + unit) \<times> state) \<Rightarrow>
   (string \<times> path \<times> content) list \<Rightarrow> bool" where
  \<comment> \<open>from every state that keeps \<open>R\<close>, the computation returns, keeps \<open>R\<close>, and writes and prints exactly the given artifacts\<close>
  "emits R m evs \<longleftrightarrow>
     (\<forall>s. keeps R s \<longrightarrow>
        (\<exists>s'. m s = (Inr (), s') \<and> keeps R s'
           \<and> written s' = written s @ map snd evs
           \<and> stdout s' = stdout s @ map progress_line evs))"

definition finishes ::
  "(nat \<times> rgba image) list \<Rightarrow> (state \<Rightarrow> (error + unit) \<times> state) \<Rightarrow>
   (string \<times> path \<times> content) list \<Rightarrow> string list \<Rightarrow> bool" where
  \<comment> \<open>as \<open>emits\<close>, with further lines printed at the end\<close>
  "finishes R m evs rest \<longleftrightarrow>
     (\<forall>s. keeps R s \<longrightarrow>
        (\<exists>s'. m s = (Inr (), s')
           \<and> written s' = written s @ map snd evs
           \<and> stdout s' = stdout s @ map progress_line evs @ rest))"

definition files_after :: "(path \<times> content) list \<Rightarrow> path \<rightharpoonup> content" where
  \<comment> \<open>the content of a path after the writes: the last one to it\<close>
  "files_after ws = map_of (rev ws)"

section \<open>A small instance of the Pillow parameters\<close>

text \<open>
  The theorems below hold for every resampling filter, rasteriser, encoder and decoder.
  To evaluate the definitions on concrete inputs, the following instance samples the
  nearest source pixel, covers a rounded rectangle with quarter discs at its corners, and
  encodes an image as its two sides followed by its pixels, row by row.
\<close>

definition nearest :: "rgba image \<Rightarrow> int \<times> int \<Rightarrow> int \<Rightarrow> int \<Rightarrow> rgba" where
  "nearest src sz x y = px src (x * width src div fst sz) (y * height src div snd sz)"

definition disc_corners :: "int \<times> int \<times> int \<times> int \<Rightarrow> int \<Rightarrow> int \<Rightarrow> int \<Rightarrow> bool" where
  "disc_corners box r x y =
     (case box of (x0, y0, x1, y1) \<Rightarrow>
        let cx = (if x < x0 + r then x0 + r else if x1 - r < x then x1 - r else x);
            cy = (if y < y0 + r then y0 + r else if y1 - r < y then y1 - r else y)
        in x0 \<le> x \<and> x \<le> x1 \<and> y0 \<le> y \<and> y \<le> y1
           \<and> (x - cx) * (x - cx) + (y - cy) * (y - cy) \<le> r * r)"

definition raw_bytes :: "rgba image \<Rightarrow> uint8 list" where
  "raw_bytes im =
     [of_int (width im), of_int (height im)]
     @ concat (map (\<lambda>y. concat (map (\<lambda>x.
          [red (px im (int x) (int y)), green (px im (int x) (int y)),
           blue (px im (int x) (int y)), alpha (px im (int x) (int y))])
          [0 ..< nat (width im)])) [0 ..< nat (height im)])"

definition raw_open :: "content \<Rightarrow> error + rgba image" where
  "raw_open c =
     (case c of
        Binary (w # h # d) \<Rightarrow>
          if 0 < w \<and> 0 < h \<and> length d = 4 * unat w * unat h
          then Inr \<lparr>width = uint w, height = uint h,
                    px = (\<lambda>x y. let i = 4 * (nat y * unat w + nat x) in
                            \<lparr>red = d ! i, green = d ! (i + 1), blue = d ! (i + 2),
                             alpha = d ! (i + 3)\<rparr>)\<rparr>
          else Inl UnidentifiedImageError
      | _ \<Rightarrow> Inl UnidentifiedImageError)"

definition sample_pil :: pil where
  "sample_pil =
     \<lparr>lanczos = nearest, covers = disc_corners, png_encode = raw_bytes,
      ico_encode = (\<lambda>im sizes. raw_bytes im @ map (\<lambda>sz. of_int (fst sz)) sizes),
      open_rgba = raw_open\<rparr>"

definition sample_image :: "rgba image" where
  \<comment> \<open>two by two pixels: an opaque left column and a half transparent right column\<close>
  "sample_image =
     \<lparr>width = 2, height = 2,
      px = (\<lambda>x y. \<lparr>red = 200, green = 100, blue = 50,
                     alpha = (if x = 0 then 255 else 128)\<rparr>)\<rparr>"

definition red_square :: "rgba image" where
  \<comment> \<open>512 by 512 pixels, opaque red\<close>
  "red_square = \<lparr>width = 512, height = 512,
                 px = (\<lambda>x y. \<lparr>red = 255, green = 0, blue = 0, alpha = 255\<rparr>)\<rparr>"

definition sample_state :: state where
  \<comment> \<open>the sample image is the only object, under reference 0\<close>
  "sample_state = snd (alloc sample_image initial)"

definition sample_disk :: "path \<rightharpoonup> content" where
  \<comment> \<open>a file system with one file, a one pixel opaque red image in the encoding of the instance\<close>
  "sample_disk = [[''icon.png''] \<mapsto> Binary [1, 1, 255, 0, 0, 255]]"

definition sample_args :: args where
  \<comment> \<open>the source path and the default radius 0.2, as a double\<close>
  "sample_args = \<lparr>source = [''icon.png''],
                   radius = Finite (3602879701896397 / 18014398509481984)\<rparr>"

section \<open>Rounding to a double\<close>

lemma ilog2_le:
  assumes "0 < x"
  shows "2 powi (ilog2 x) \<le> x"
proof -
  obtain p q where pq: "quotient_of x = (p, q)" by (cases "quotient_of x")
  have q: "0 < q" using quotient_of_denom_pos [OF pq] .
  have x: "x = of_int p / of_int q" using quotient_of_div [OF pq] .
  have p: "0 < p" using assms q x by (simp add: zero_less_divide_iff)
  let ?d = "bitlen p - bitlen q"
  show ?thesis
  proof (cases "2 powi ?d \<le> x")
    case True
    then show ?thesis by (simp add: ilog2_def pq)
  next
    case False
    have bp: "1 \<le> bitlen p" using p by (simp add: bitlen_alt_def)
    have bq: "1 \<le> bitlen q" using q by (simp add: bitlen_alt_def)
    have lo: "(2::rat) ^ nat (bitlen p - 1) \<le> of_int p"
      using bitlen_bounds [OF p] of_int_le_iff [where 'a = rat, of "2 ^ nat (bitlen p - 1)" p] by simp
    have hi: "of_int q < (2::rat) ^ nat (bitlen q)"
      using bitlen_bounds [OF q] of_int_less_iff [where 'a = rat, of q "2 ^ nat (bitlen q)"] by simp
    have "(2::rat) powi (?d - 1) = 2 powi (bitlen p - 1) / 2 powi (bitlen q)"
      by (simp add: power_int_diff)
    also have "\<dots> = 2 ^ nat (bitlen p - 1) / 2 ^ nat (bitlen q)"
      using bp bq by (simp add: power_int_def)
    also have "\<dots> \<le> of_int p / 2 ^ nat (bitlen q)"
      using lo by (simp add: divide_right_mono)
    also have "\<dots> \<le> of_int p / of_int q"
      using hi p q by (simp add: frac_le)
    finally have "(2::rat) powi (?d - 1) \<le> x" using x by simp
    then show ?thesis using False by (simp add: ilog2_def pq)
  qed
qed

lemma round_half_even_le: "y \<le> of_int m \<Longrightarrow> round_half_even y \<le> m"
  unfolding round_half_even_def Let_def by (auto; linarith)

lemma round_half_even_nonneg: "0 \<le> y \<Longrightarrow> 0 \<le> round_half_even y"
  unfolding round_half_even_def Let_def by (auto; linarith)

lemma round_half_even_int [simp]: "round_half_even (of_int m) = m"
  unfolding round_half_even_def Let_def by simp

lemma ulp_pos: "0 < ulp x"
  by (simp add: ulp_def)

lemma of_S_le: "S \<le> 2 ^ 53 \<Longrightarrow> (of_int S :: rat) \<le> 2 ^ 53"
proof -
  assume "S \<le> 2 ^ 53"
  then have "(of_int S :: rat) \<le> of_int (2 ^ 53)" by (simp only: of_int_le_iff)
  then show ?thesis by simp
qed

lemma ulp_divides:
  assumes "0 < x" and "x \<le> of_int S" and "S \<le> 2 ^ 53"
  shows "\<exists>m::int. of_int S = of_int m * ulp x"
proof -
  let ?k = "max (ilog2 \<bar>x\<bar>) (- 1022) - 52"
  have "2 powi (ilog2 x) \<le> x" using ilog2_le [OF assms(1)] .
  also have "x \<le> 2 ^ 53" using assms(2) of_S_le [OF assms(3)] by simp
  finally have "(2::rat) powi (ilog2 x) \<le> 2 powi 53" by simp
  then have i: "ilog2 x \<le> 53" by (rule power_int_le_imp_le_exp [rotated]) simp_all
  show ?thesis
  proof (cases "?k \<le> 0")
    case True
    then have "ulp x = 1 / 2 ^ nat (- ?k)"
      by (simp add: ulp_def power_int_def inverse_eq_divide power_divide del: max.bounded_iff)
    then have "of_int S = of_int (S * 2 ^ nat (- ?k)) * ulp x" by simp
    then show ?thesis by blast
  next
    case False
    with i assms(1) have k: "ilog2 x = 53" by (simp split: if_splits add: max_def)
    then have "2 ^ 53 \<le> x" using ilog2_le [OF assms(1)] by simp
    with assms(2) have "(2::rat) ^ 53 \<le> of_int S" by simp
    then have "(of_int (2 ^ 53) :: rat) \<le> of_int S" by simp
    then have "2 ^ 53 \<le> S" by (simp only: of_int_le_iff)
    with assms(3) have S: "S = 2 ^ 53" by simp
    have "ulp x = 2" using k assms(1) by (simp add: ulp_def)
    then have "of_int S = of_int (2 ^ 52) * ulp x" using S by simp
    then show ?thesis by blast
  qed
qed

lemma round_double_bounded:
  assumes "0 \<le> x" and "x \<le> of_int S" and "S \<le> 2 ^ 53"
  shows "\<exists>r. round_double x = Finite r \<and> 0 \<le> r \<and> r \<le> of_int S"
proof (cases "x = 0")
  case True
  then show ?thesis using assms by (simp add: round_double_def)
next
  case False
  then have x: "0 < x" using assms(1) by simp
  from ulp_divides [OF x assms(2,3)] obtain m :: int where m: "of_int S = of_int m * ulp x" by blast
  let ?r = "of_int (round_half_even (x / ulp x)) * ulp x"
  have "x / ulp x \<le> of_int m" using m assms(2) ulp_pos [of x] by (simp add: pos_divide_le_eq)
  then have "round_half_even (x / ulp x) \<le> m" by (rule round_half_even_le)
  then have hi: "?r \<le> of_int S" using m ulp_pos [of x] by simp
  have "0 \<le> x / ulp x" using x ulp_pos [of x] by simp
  then have "0 \<le> round_half_even (x / ulp x)" by (rule round_half_even_nonneg)
  then have lo: "0 \<le> ?r" using ulp_pos [of x] by simp
  have "?r \<le> 2 ^ 53" using hi of_S_le [OF assms(3)] by simp
  also have "(2::rat) ^ 53 < 2 ^ 1024" by simp
  finally have "?r < 2 ^ 1024" .
  then show ?thesis using False lo hi by (simp add: round_double_def Let_def)
qed

lemma float_of_int_exact:
  assumes "0 \<le> S" and "S \<le> 2 ^ 53"
  shows "float_of_int S = Inr (Finite (of_int S))"
proof (cases "S = 0")
  case True
  then show ?thesis by (simp add: float_of_int_def round_double_def)
next
  case False
  then have x: "(0::rat) < of_int S" using assms(1) by simp
  from ulp_divides [OF x _ assms(2)] obtain m :: int where m: "of_int S = of_int m * ulp (of_int S)" by blast
  have "of_int S / ulp (of_int S) = (of_int m :: rat)" using m ulp_pos [of "of_int S"]
    by (metis nonzero_mult_div_cancel_right less_irrefl)
  then have r: "of_int (round_half_even (of_int S / ulp (of_int S))) * ulp (of_int S) = (of_int S :: rat)"
    using m by simp
  have "(of_int S :: rat) \<le> 2 ^ 53" using of_S_le [OF assms(2)] .
  also have "(2::rat) ^ 53 < 2 ^ 1024" by simp
  finally have "(of_int S :: rat) < 2 ^ 1024" .
  then show ?thesis using False x r by (simp add: float_of_int_def round_double_def Let_def)
qed

lemma int_of_product_bounds:
  assumes "0 < S" and "S \<le> 2 ^ 53" and "0 < f" and "f \<le> 1"
  shows "\<exists>inner. int_of_product S (Finite f) = Inr inner \<and> 0 \<le> inner \<and> inner \<le> S"
proof -
  have fi: "float_of_int S = Inr (Finite (of_int S))" using float_of_int_exact assms by simp
  have "0 \<le> of_int S * f" using assms by simp
  moreover have "of_int S * f \<le> of_int S" using assms by (simp add: mult_left_le)
  ultimately obtain r where r: "round_double (of_int S * f) = Finite r" "0 \<le> r" "r \<le> of_int S"
    using round_double_bounded [OF _ _ assms(2)] by blast
  have "\<lfloor>r\<rfloor> \<le> S" using r(3) by (simp add: floor_le_iff) 
  moreover have "0 \<le> \<lfloor>r\<rfloor>" using r(2) by simp
  ultimately show ?thesis using fi r by (simp add: int_of_product_def py_mul_int_float_def)
qed

lemma ilog2_less:
  assumes "0 < x"
  shows "x < 2 powi (ilog2 x + 1)"
proof -
  obtain p q where pq: "quotient_of x = (p, q)" by (cases "quotient_of x")
  have q: "0 < q" using quotient_of_denom_pos [OF pq] .
  have x: "x = of_int p / of_int q" using quotient_of_div [OF pq] .
  have p: "0 < p" using assms q x by (simp add: zero_less_divide_iff)
  let ?d = "bitlen p - bitlen q"
  show ?thesis
  proof (cases "2 powi ?d \<le> x")
    case True
    have bp: "1 \<le> bitlen p" using p by (simp add: bitlen_alt_def)
    have bq: "1 \<le> bitlen q" using q by (simp add: bitlen_alt_def)
    have hi: "of_int p < (2::rat) ^ nat (bitlen p)"
      using bitlen_bounds [OF p] of_int_less_iff [where 'a = rat, of p "2 ^ nat (bitlen p)"] by simp
    have lo: "(2::rat) ^ nat (bitlen q - 1) \<le> of_int q"
      using bitlen_bounds [OF q] of_int_le_iff [where 'a = rat, of "2 ^ nat (bitlen q - 1)" q] by simp
    have "x = of_int p / of_int q" by (rule x)
    also have "\<dots> \<le> of_int p / 2 ^ nat (bitlen q - 1)"
      using lo p by (simp add: frac_le)
    also have "\<dots> < 2 ^ nat (bitlen p) / 2 ^ nat (bitlen q - 1)"
      using hi by (simp add: divide_strict_right_mono)
    also have "\<dots> = 2 powi (bitlen p) / 2 powi (bitlen q - 1)"
      using bp bq by (simp add: power_int_def)
    also have "\<dots> = 2 powi (bitlen p - (bitlen q - 1))"
      by (subst power_int_diff) simp_all
    also have "bitlen p - (bitlen q - 1) = ?d + 1" by simp
    finally show ?thesis using True by (simp add: ilog2_def pq)
  next
    case False
    then show ?thesis by (simp add: ilog2_def pq)
  qed
qed

lemma power2_int_less_exp:
  assumes "(2::rat) powi m < 2 powi n"
  shows "m < n"
proof (rule ccontr)
  assume "\<not> m < n"
  then have "n \<le> m" by simp
  then have "(2::rat) powi n \<le> 2 powi m" by (rule power_int_increasing) simp
  with assms show False by simp
qed

lemma ilog2_eqI:
  assumes "2 powi e \<le> x" and "x < 2 powi (e + 1)"
  shows "ilog2 x = e"
proof -
  have "(0::rat) < 2 powi e" by simp
  then have x: "0 < x" using assms(1) by (rule less_le_trans)
  have "(2::rat) powi e < 2 powi (ilog2 x + 1)"
    using assms(1) ilog2_less [OF x] by simp
  then have a: "e < ilog2 x + 1" by (rule power2_int_less_exp)
  have "(2::rat) powi (ilog2 x) < 2 powi (e + 1)"
    using assms(2) ilog2_le [OF x] by simp
  then have b: "ilog2 x < e + 1" by (rule power2_int_less_exp)
  from a b show ?thesis by simp
qed

lemma floor_rat_numeral_div [simp]:
  "\<lfloor>(numeral a :: rat) / numeral b\<rfloor> = numeral a div numeral b"
  using floor_divide_of_int_eq [of "numeral a" "numeral b", where 'a = rat] by simp

lemma floor_rat_one_div [simp]:
  "\<lfloor>1 / (numeral b :: rat)\<rfloor> = 1 div numeral b"
  using floor_divide_of_int_eq [of 1 "numeral b", where 'a = rat] by simp

lemma round_double_eval:
  assumes "2 powi e \<le> \<bar>x\<bar>" and "\<bar>x\<bar> < 2 powi (e + 1)" and "- 1022 \<le> e"
  shows "round_double x =
     (let r = of_int (round_half_even (x / 2 powi (e - 52))) * 2 powi (e - 52)
      in if 2 ^ 1024 \<le> r then PosInf else if r \<le> - (2 ^ 1024) then NegInf else Finite r)"
proof -
  have "(0::rat) < 2 powi e" by simp
  then have "0 < \<bar>x\<bar>" using assms(1) by (rule less_le_trans)
  then have "x \<noteq> 0" by simp
  moreover have "ulp x = 2 powi (e - 52)"
    using ilog2_eqI [OF assms(1,2)] assms(3) by (simp add: ulp_def)
  ultimately show ?thesis by (simp add: round_double_def Let_def)
qed

lemma round_half_even_upper: "of_int (round_half_even y) \<le> y + 1 / 2"
  unfolding round_half_even_def Let_def by (auto; linarith)

lemma ilog2_normal:
  assumes "2 powi (- 1022) \<le> x"
  shows "- 1022 \<le> ilog2 x"
proof -
  have "(0::rat) < 2 powi (- 1022)" by simp
  then have x: "0 < x" using assms by (rule less_le_trans)
  have "(2::rat) powi (- 1022) < 2 powi (ilog2 x + 1)" using assms ilog2_less [OF x] by simp
  then have "- 1022 < ilog2 x + 1" by (rule power2_int_less_exp)
  then show ?thesis by simp
qed

lemma rounded_normal_upper:
  assumes "2 powi (- 1022) \<le> x"
  shows "of_int (round_half_even (x / ulp x)) * ulp x \<le> x * (1 + 1 / 2 ^ 53)"
proof -
  have "(0::rat) < 2 powi (- 1022)" by simp
  then have x: "0 < x" using assms by (rule less_le_trans)
  have e: "- 1022 \<le> ilog2 x" using ilog2_normal [OF assms] .
  have "ulp x = 2 powi (ilog2 x - 52)" using e x by (simp add: ulp_def)
  also have "\<dots> = 2 powi (ilog2 x) / 2 ^ 52" by (simp add: power_int_diff)
  also have "\<dots> \<le> x / 2 ^ 52" using ilog2_le [OF x] by (simp add: divide_right_mono)
  finally have u: "ulp x \<le> x / 2 ^ 52" .
  have "of_int (round_half_even (x / ulp x)) * ulp x \<le> (x / ulp x + 1 / 2) * ulp x"
    using round_half_even_upper [of "x / ulp x"] ulp_pos [of x] by (simp add: mult_right_mono)
  also have "\<dots> = x + ulp x / 2" using ulp_pos [of x] by (simp add: algebra_simps)
  also have "\<dots> \<le> x + (x / 2 ^ 52) / 2" using u by simp
  also have "\<dots> = x * (1 + 1 / 2 ^ 53)" by (simp add: algebra_simps)
  finally show ?thesis .
qed

lemma rounded_subnormal_upper:
  assumes "0 < x" and "x < 2 powi (- 1022)"
  shows "of_int (round_half_even (x / ulp x)) * ulp x \<le> 1"
proof -
  have "(2::rat) powi (ilog2 x) < 2 powi (- 1022)" using ilog2_le [OF assms(1)] assms(2) by simp
  then have "ilog2 x < - 1022" by (rule power2_int_less_exp)
  then have u: "ulp x = 2 powi (- 1074)" using assms(1) by (simp add: ulp_def)
  have "x / ulp x \<le> 2 powi (- 1022) / 2 powi (- 1074)"
    unfolding u using assms(2) by (simp add: divide_right_mono)
  also have "\<dots> = 2 powi 52" by (simp add: power_int_diff [symmetric])
  also have "\<dots> = of_int (2 ^ 52)" by simp
  finally have "round_half_even (x / ulp x) \<le> 2 ^ 52" by (rule round_half_even_le)
  then have "(of_int (round_half_even (x / ulp x)) :: rat) \<le> of_int (2 ^ 52)"
    by (simp only: of_int_le_iff)
  then have "of_int (round_half_even (x / ulp x)) * ulp x \<le> of_int (2 ^ 52) * ulp x"
    using ulp_pos [of x] by (simp add: mult_right_mono)
  also have "\<dots> = 2 powi 52 * 2 powi (- 1074)" unfolding u by simp
  also have "\<dots> = 2 powi (- 1022)" by (simp add: power_int_add [symmetric])
  also have "\<dots> \<le> 2 powi 0" by (rule power_int_increasing) simp_all
  finally show ?thesis by simp
qed

lemma rounded_nonneg:
  assumes "0 \<le> x"
  shows "0 \<le> of_int (round_half_even (x / ulp x)) * ulp x"
proof -
  have "0 \<le> x / ulp x" using assms ulp_pos [of x] by simp
  then have "0 \<le> round_half_even (x / ulp x)" by (rule round_half_even_nonneg)
  then show ?thesis using ulp_pos [of x] by simp
qed

lemma round_double_finite:
  assumes "0 \<le> x" and "of_int (round_half_even (x / ulp x)) * ulp x < 2 ^ 1024"
  shows "round_double x = Finite (of_int (round_half_even (x / ulp x)) * ulp x)"
proof (cases "x = 0")
  case True
  then show ?thesis by (simp add: round_double_def round_half_even_def)
next
  case False
  have "- (2 ^ 1024) < (0::rat)" by simp
  also have "0 \<le> of_int (round_half_even (x / ulp x)) * ulp x" using rounded_nonneg [OF assms(1)] .
  finally show ?thesis using False assms(2) by (simp add: round_double_def Let_def)
qed

lemma int_of_product_half_bounds:
  assumes "0 \<le> S" and "S < 2 ^ 1023" and "0 < f" and "f \<le> 1 / 2"
  shows "\<exists>r. int_of_product S (Finite f) = Inr r \<and> 0 \<le> r \<and> r \<le> S"
proof (cases "S = 0")
  case True
  then show ?thesis
    by (simp add: int_of_product_def py_mul_int_float_def float_of_int_def round_double_def)
next
  case False
  then have S1: "1 \<le> S" using assms(1) by simp
  define x :: rat where "x = of_int S"
  define a where "a = of_int (round_half_even (x / ulp x)) * ulp x"
  define p where "p = a * f"
  define r where "r = of_int (round_half_even (p / ulp p)) * ulp p"
  have x1: "1 \<le> x" using S1 by (simp add: x_def)
  have "(2::rat) powi (- 1022) \<le> 2 powi 0" by (rule power_int_increasing) simp_all
  then have xn: "2 powi (- 1022) \<le> x" using x1 by simp
  have a_hi: "a \<le> x * (1 + 1 / 2 ^ 53)" unfolding a_def using xn by (rule rounded_normal_upper)
  have a_lo: "0 \<le> a" unfolding a_def using x1 by (intro rounded_nonneg) simp
  have "x < of_int (2 ^ 1023)" unfolding x_def using assms(2) by (simp only: of_int_less_iff)
  then have xb: "x < 2 ^ 1023" by simp
  have "x * (1 + 1 / 2 ^ 53) \<le> x * 2" using x1 by (intro mult_left_mono) simp_all
  also have "\<dots> < 2 ^ 1023 * 2" using xb by simp
  also have "\<dots> = (2::rat) ^ 1024" by simp
  finally have "a < 2 ^ 1024" using a_hi by simp
  then have fa: "round_double x = Finite a"
    unfolding a_def using x1 by (intro round_double_finite) simp_all
  have p_lo: "0 \<le> p" using a_lo assms(3) by (simp add: p_def)
  have r_lo: "0 \<le> r" unfolding r_def using p_lo by (rule rounded_nonneg)
  have r_hi: "r \<le> x"
  proof (cases "p = 0")
    case True
    then show ?thesis using x1 by (simp add: r_def round_half_even_def)
  next
    case nz: False
    then have pp: "0 < p" using p_lo by simp
    show ?thesis
    proof (cases "p < 2 powi (- 1022)")
      case True
      from rounded_subnormal_upper [OF pp True] x1 show ?thesis by (simp add: r_def)
    next
      case False
      then have "2 powi (- 1022) \<le> p" by simp
      then have "r \<le> p * (1 + 1 / 2 ^ 53)" unfolding r_def by (rule rounded_normal_upper)
      also have "p \<le> a * (1 / 2)" unfolding p_def using a_lo assms(4) by (intro mult_left_mono) simp_all
      then have "p * (1 + 1 / 2 ^ 53) \<le> a * (1 / 2) * (1 + 1 / 2 ^ 53)"
        by (intro mult_right_mono) simp_all
      also have "\<dots> \<le> (x * (1 + 1 / 2 ^ 53)) * (1 / 2) * (1 + 1 / 2 ^ 53)"
        using a_hi by (intro mult_right_mono) simp_all
      also have "\<dots> = x * ((1 + 1 / 2 ^ 53) * (1 / 2) * (1 + 1 / 2 ^ 53))" by simp
      also have "\<dots> \<le> x * 1" using x1 by (intro mult_left_mono) simp_all
      finally show ?thesis by simp
    qed
  qed
  have "r \<le> x" by (rule r_hi)
  also have "x < 2 ^ 1024" using xb by simp
  finally have fr: "round_double p = Finite r"
    unfolding r_def using p_lo by (intro round_double_finite) simp_all
  have "\<lfloor>r\<rfloor> \<le> S" using r_hi by (simp add: floor_le_iff x_def)
  moreover have "0 \<le> \<lfloor>r\<rfloor>" using r_lo by simp
  ultimately show ?thesis
    using fa fr r_lo
    by (simp add: int_of_product_def py_mul_int_float_def float_of_int_def x_def p_def)
qed

section \<open>Blending\<close>

lemma div255_exact: "n < 256 \<Longrightarrow> ((n * 255 + 128) div 256 + (n * 255 + 128)) div 256 = (n::nat)"
  by (cases "n \<le> 128") simp_all

lemma unat8_less: "unat (a :: uint8) < 256"
  using unsigned_less [of a, where 'a = nat] by simp

lemma BLEND8_full [simp]: "BLEND8 255 a b = b"
  using unat8_less [of b] by (simp add: BLEND8_def div255_exact)

lemma BLEND8_none [simp]: "BLEND8 0 a b = a"
  using unat8_less [of a] by (simp add: BLEND8_def div255_exact)

lemma blend_full [simp]: "blend 255 out inp = inp"
  by (simp add: blend_def)

lemma blend_none [simp]: "blend 0 out inp = out"
  by (simp add: blend_def)

section \<open>Allocation and resizing\<close>

lemma alloc_simps [simp]:
  "fst (alloc im s) = Inr (next_ref s)"
  "objs (snd (alloc im s)) = (objs s)(next_ref s := im)"
  "next_ref (snd (alloc im s)) = Suc (next_ref s)"
  "written (snd (alloc im s)) = written s"
  "stdout (snd (alloc im s)) = stdout s"
  by (simp_all add: alloc_def)

lemma sample_state_simps [simp]:
  "objs sample_state 0 = sample_image"
  "next_ref sample_state = 1"
  "written sample_state = []"
  "stdout sample_state = []"
  by (simp_all add: sample_state_def initial_def)

lemma resize_ok:
  "1 \<le> fst sz \<Longrightarrow> 1 \<le> snd sz \<Longrightarrow>
   resize P im sz s = alloc (resized_image P (objs s im) sz) s"
  by (auto simp: resize_def resized_image_def Let_def)

lemma resize_all_ok:
  "\<forall>x \<in> set xs. 1 \<le> x \<Longrightarrow> base < next_ref s \<Longrightarrow>
   \<exists>s1. resize_all P base xs s = (Inr (map (\<lambda>i. next_ref s + i) [0 ..< length xs]), s1)
      \<and> next_ref s1 = next_ref s + length xs
      \<and> written s1 = written s \<and> stdout s1 = stdout s
      \<and> (\<forall>r < next_ref s. objs s1 r = objs s r)
      \<and> (\<forall>i < length xs. objs s1 (next_ref s + i)
            = resized_image P (objs s base) (xs ! i, xs ! i))"
proof (induction xs arbitrary: s)
  case Nil
  then show ?case by simp
next
  case (Cons x xs)
  let ?s' = "snd (alloc (resized_image P (objs s base) (x, x)) s)"
  have r: "resize P base (x, x) s = (Inr (next_ref s), ?s')"
    using Cons.prems by (simp add: resize_ok alloc_def)
  have b: "base < next_ref ?s'" using Cons.prems by simp
  from Cons.IH [OF _ b] Cons.prems obtain s1 where
    A: "resize_all P base xs ?s' = (Inr (map (\<lambda>i. next_ref ?s' + i) [0 ..< length xs]), s1)"
    and B: "next_ref s1 = next_ref ?s' + length xs" "written s1 = written ?s'"
      "stdout s1 = stdout ?s'"
    and C: "\<forall>r < next_ref ?s'. objs s1 r = objs ?s' r"
    and D: "\<forall>i < length xs. objs s1 (next_ref ?s' + i)
              = resized_image P (objs ?s' base) (xs ! i, xs ! i)"
    by auto
  have m: "map (\<lambda>i. next_ref s + i) [0 ..< length (x # xs)]
        = next_ref s # map (\<lambda>i. next_ref ?s' + i) [0 ..< length xs]"
    by (rule nth_equalityI) (auto simp: nth_Cons simp del: upt_Suc split: nat.split)
  have E: "\<forall>i < length (x # xs). objs s1 (next_ref s + i)
             = resized_image P (objs s base) ((x # xs) ! i, (x # xs) ! i)"
  proof (intro allI impI)
    fix i assume i: "i < length (x # xs)"
    show "objs s1 (next_ref s + i)
            = resized_image P (objs s base) ((x # xs) ! i, (x # xs) ! i)"
    proof (cases i)
      case 0
      then show ?thesis using C by simp
    next
      case (Suc j)
      then have "j < length xs" using i by simp
      with D have "objs s1 (next_ref ?s' + j)
                     = resized_image P (objs ?s' base) (xs ! j, xs ! j)" by blast
      then show ?thesis using Suc Cons.prems(2) by simp
    qed
  qed
  show ?case
    apply (rule exI [of _ s1])
    using A B C E r m by (simp del: upt_Suc)
qed

section \<open>The multi-resolution bundle\<close>

text \<open>
  C1. \<^verbatim>\<open>save_ico\<close> resizes the base image to every requested size, but it hands the
  encoder one image only, the last of the list, together with the list of sizes: the
  file written is the encoding of the base image resized to the last requested size,
  and the images resized to the other sizes are not part of it. With the default sizes
  the bundle is built from the 64 pixel image alone.
\<close>

theorem save_ico_encodes_last_resized_only:
  assumes "sizes \<noteq> []" and "\<forall>x \<in> set sizes. 1 \<le> x" and "base < next_ref s"
  shows "fst (save_ico P base dest sizes s) = Inr () \<and>
    written (snd (save_ico P base dest sizes s)) = written s @
      [(dest, Binary (ico_encode P (resized_image P (objs s base) (last sizes, last sizes))
                  (map (\<lambda>x. (x, x)) sizes)))]"
proof -
  from resize_all_ok [OF assms(2,3), of P] obtain s1 where
    A: "resize_all P base sizes s = (Inr (map (\<lambda>i. next_ref s + i) [0 ..< length sizes]), s1)"
    and B: "written s1 = written s"
    and D: "\<forall>i < length sizes. objs s1 (next_ref s + i)
              = resized_image P (objs s base) (sizes ! i, sizes ! i)"
    by blast
  let ?rs = "map (\<lambda>i. next_ref s + i) [0 ..< length sizes]"
  have ne: "?rs \<noteq> []" using assms(1) by simp
  then have l: "py_last ?rs = Inr (last ?rs)" by (cases ?rs) simp_all
  have "last ?rs = next_ref s + (length sizes - 1)"
    using assms(1) by (simp add: last_map del: upt_Suc)
  moreover have "objs s1 (next_ref s + (length sizes - 1))
                   = resized_image P (objs s base) (last sizes, last sizes)"
    using D assms(1) by (simp add: last_conv_nth)
  ultimately have o: "objs s1 (last ?rs)
                        = resized_image P (objs s base) (last sizes, last sizes)" by simp
  show ?thesis
    using A l o B
    by (simp add: save_ico_def ensure_parent_def Let_def write_file_def print_line_def
          del: upt_Suc)
qed

theorem save_ico_encodes_last_resized_only_witness:
  "fst (save_ico sample_pil 0 [''favicon.ico''] default_sizes sample_state) = Inr () \<and>
   written (snd (save_ico sample_pil 0 [''favicon.ico''] default_sizes sample_state)) =
     [([''favicon.ico''],
       Binary (ico_encode sample_pil (resized_image sample_pil sample_image (64, 64))
                 [(16, 16), (32, 32), (48, 48), (64, 64)]))]"
  using save_ico_encodes_last_resized_only
          [of default_sizes 0 sample_state sample_pil "[''favicon.ico'']"]
  by (simp add: default_sizes_def)

section \<open>Safe-zone padding\<close>

lemma Image_new_ok:
  "0 \<le> fst sz \<Longrightarrow> 0 \<le> snd sz \<Longrightarrow>
   Image_new sz c s = alloc \<lparr>width = fst sz, height = snd sz, px = (\<lambda>x y. c)\<rparr> s"
  by (simp add: Image_new_def)

lemma resized_image_size [simp]:
  "width (resized_image P src sz) = fst sz" "height (resized_image P src sz) = snd sz"
  by (auto simp: resized_image_def)

lemma padded_result:
  assumes "0 \<le> S" and "int_of_product S scale = Inr inner" and "1 \<le> inner"
    and "img < next_ref s"
  shows "\<exists>s'. padded P img S scale s = (Inr (next_ref s), s')
    \<and> objs s' (next_ref s) = pasted_canvas S (resized_image P (objs s img) (inner, inner))
    \<and> (\<forall>r < next_ref s. objs s' r = objs s r)
    \<and> next_ref s' = next_ref s + 2
    \<and> written s' = written s \<and> stdout s' = stdout s"
proof -
  let ?c0 = "\<lparr>width = S, height = S, px = (\<lambda>x y. transparent)\<rparr>"
  let ?s1 = "snd (alloc ?c0 s)"
  let ?R = "resized_image P (objs s img) (inner, inner)"
  let ?s2 = "snd (alloc ?R ?s1)"
  have n: "Image_new (S, S) transparent s = (Inr (next_ref s), ?s1)"
    using assms(1) by (simp add: Image_new_ok alloc_def)
  have "objs ?s1 img = objs s img" using assms(4) by simp
  then have r: "resize P img (inner, inner) ?s1 = (Inr (Suc (next_ref s)), ?s2)"
    using assms(3) by (simp add: resize_ok) (simp add: alloc_def)
  have o2: "objs ?s2 (Suc (next_ref s)) = ?R" "objs ?s2 (next_ref s) = ?c0" by simp_all
  have p: "paste (next_ref s) (Suc (next_ref s)) ((S - inner) div 2, (S - inner) div 2)
             (MaskRGBA (Suc (next_ref s))) ?s2
           = (Inr (), ?s2\<lparr>objs := (objs ?s2)(next_ref s := pasted_canvas S ?R)\<rparr>)"
    unfolding paste_def mask_band_def Let_def pasted_canvas_def o2 by simp
  have "padded P img S scale s = (Inr (next_ref s), ?s2\<lparr>objs := (objs ?s2)(next_ref s := pasted_canvas S ?R)\<rparr>)"
    unfolding padded_def n assms(2) by (simp add: r p Let_def)
  then show ?thesis using assms(4) by simp
qed


lemma pasted_canvas_size [simp]:
  "width (pasted_canvas S R) = S" "height (pasted_canvas S R) = S"
  by (simp_all add: pasted_canvas_def ImagingPaste_def)

lemma pasted_canvas_px:
  "px (pasted_canvas S R) x y =
     (if 0 \<le> x \<and> x < S \<and> 0 \<le> y \<and> y < S
         \<and> inside R (x - (S - width R) div 2) (y - (S - width R) div 2)
      then blend (alpha (px R (x - (S - width R) div 2) (y - (S - width R) div 2))) transparent
             (px R (x - (S - width R) div 2) (y - (S - width R) div 2))
      else transparent)"
  by (simp add: pasted_canvas_def ImagingPaste_def inside_def)

lemma int_of_product_one:
  assumes "0 \<le> S" and "S \<le> 2 ^ 53"
  shows "int_of_product S (Finite 1) = Inr S"
proof -
  have "round_double (of_int S) = Finite (of_int S)"
    using float_of_int_exact [OF assms] by (simp add: float_of_int_def split: pyfloat.splits)
  then show ?thesis
    using float_of_int_exact [OF assms] assms(1)
    by (simp add: int_of_product_def py_mul_int_float_def)
qed

text \<open>
  C7. The notification glyph that \<^verbatim>\<open>main\<close> builds inline (a 96 by 96 transparent canvas,
  the base image resized to 96, pasted at offset 0 with itself as the mask) is what
  \<^verbatim>\<open>padded(base, 96, 1.0)\<close> returns, for every base image and in every state: the same
  reference, the same objects and the same effects.
\<close>

theorem notification_is_padded_96_full:
  "notification_glyph P base s = padded P base 96 (Finite 1) s"
proof -
  have i: "int_of_product 96 (Finite 1) = Inr 96" by (rule int_of_product_one) simp_all
  show ?thesis
    unfolding notification_glyph_def padded_def i Let_def bind_def raise_def
    by (simp split: prod.splits sum.splits)
qed

text \<open>
  C10. For a canvas size \<open>0 < S \<le> 2 ^ 53\<close> and a scale \<open>0 < f \<le> 1\<close>,
  \<^verbatim>\<open>inner = int(S * f)\<close> is computed without error and lies between 0 and \<open>S\<close>, so the
  paste offset \<open>(S - inner) div 2\<close> is not negative and the pasted square ends within the
  canvas. When \<open>inner\<close> is at least 1 the call returns, and every pixel of the pasted image
  lands inside the canvas; when \<open>inner\<close> is 0 and the source image is not empty, the resize
  raises ValueError and nothing is returned.
\<close>

theorem padded_inner_within_canvas:
  assumes "0 < S" and "S \<le> 2 ^ 53" and "0 < f" and "f \<le> 1" and "img < next_ref s"
  shows "\<exists>inner. int_of_product S (Finite f) = Inr inner \<and> 0 \<le> inner \<and> inner \<le> S
     \<and> 0 \<le> (S - inner) div 2 \<and> (S - inner) div 2 + inner \<le> S
     \<and> (1 \<le> inner \<longrightarrow>
          (\<exists>s'. padded P img S (Finite f) s = (Inr (next_ref s), s')
             \<and> (\<forall>x y. inside (resized_image P (objs s img) (inner, inner))
                         (x - (S - inner) div 2) (y - (S - inner) div 2)
                       \<longrightarrow> inside (objs s' (next_ref s)) x y)))
     \<and> (inner = 0 \<and> (width (objs s img), height (objs s img)) \<noteq> (0, 0) \<longrightarrow>
          fst (padded P img S (Finite f) s) = Inl ValueError)"
proof -
  from int_of_product_bounds [OF assms(1-4)] obtain inner where
    i: "int_of_product S (Finite f) = Inr inner" "0 \<le> inner" "inner \<le> S" by blast
  have off: "0 \<le> (S - inner) div 2" "(S - inner) div 2 + inner \<le> S" using i by simp_all
  have tot: "\<exists>s'. padded P img S (Finite f) s = (Inr (next_ref s), s')
             \<and> (\<forall>x y. inside (resized_image P (objs s img) (inner, inner))
                         (x - (S - inner) div 2) (y - (S - inner) div 2)
                       \<longrightarrow> inside (objs s' (next_ref s)) x y)" if "1 \<le> inner"
  proof -
    from padded_result [OF _ i(1) that assms(5), of P] assms(1) obtain s' where
      s': "padded P img S (Finite f) s = (Inr (next_ref s), s')"
        "objs s' (next_ref s) = pasted_canvas S (resized_image P (objs s img) (inner, inner))"
      by auto
    have "inside (objs s' (next_ref s)) x y"
      if "inside (resized_image P (objs s img) (inner, inner))
            (x - (S - inner) div 2) (y - (S - inner) div 2)" for x y
      using that off i unfolding s'(2) by (simp add: inside_def) linarith
    with s'(1) show ?thesis by blast
  qed
  have err: "fst (padded P img S (Finite f) s) = Inl ValueError"
    if "inner = 0" "(width (objs s img), height (objs s img)) \<noteq> (0, 0)"
  proof -
    have n: "Image_new (S, S) transparent s
             = alloc \<lparr>width = S, height = S, px = (\<lambda>x y. transparent)\<rparr> s"
      using assms(1) by (simp add: Image_new_ok)
    have "objs (snd (alloc \<lparr>width = S, height = S, px = (\<lambda>x y. transparent)\<rparr> s)) img = objs s img"
      using assms(5) by simp
    then show ?thesis
      using that i(1) unfolding padded_def n
      by (auto simp add: alloc_def resize_def Let_def)
  qed
  show ?thesis using i off tot err by blast
qed

lemma two_thirds_of_96: "int_of_product 96 (Finite (6004799503160661 / 9007199254740992)) = Inr 64"
  by (simp add: int_of_product_def py_mul_int_float_def float_of_int_exact
      round_double_eval [where e = 5] round_half_even_def Let_def)

theorem padded_inner_within_canvas_witness:
  "int_of_product 96 (Finite (6004799503160661 / 9007199254740992)) = Inr 64
   \<and> fst (padded sample_pil 0 96 (Finite (6004799503160661 / 9007199254740992)) sample_state)
       = Inr 1
   \<and> inside (objs (snd (padded sample_pil 0 96 (Finite (6004799503160661 / 9007199254740992))
                 sample_state)) 1) 16 16"
proof -
  have r: "inside (resized_image sample_pil (objs sample_state 0) (64, 64)) 0 0"
    by (simp add: inside_def)
  from padded_inner_within_canvas
         [of 96 "6004799503160661 / 9007199254740992" 0 sample_state sample_pil]
  show ?thesis using r by (auto simp: two_thirds_of_96)
qed

lemma half_of_1: "int_of_product 1 (Finite (1 / 2)) = Inr 0"
  by (simp add: int_of_product_def py_mul_int_float_def float_of_int_exact
      round_double_eval [where e = "- 1"] round_half_even_def Let_def)

lemma large_int_rounds_up:
  "int_of_product 9007199254740995 (Finite 1) = Inr 9007199254740996"
  by (simp add: int_of_product_def py_mul_int_float_def float_of_int_def
      round_double_eval [where e = 53] round_half_even_def Let_def)

theorem padded_inner_within_canvas_counterexample:
  "fst (padded sample_pil 0 1 (Finite (1 / 2)) sample_state) = Inl ValueError
   \<and> int_of_product 9007199254740995 (Finite 1) = Inr 9007199254740996
   \<and> (9007199254740995 - 9007199254740996) div 2 < (0::int)"
  by (simp add: large_int_rounds_up padded_def Image_new_def half_of_1 resize_def
        sample_image_def alloc_def)

text \<open>
  C2. For a canvas size \<open>0 < S \<le> 2 ^ 53\<close> and a scale \<open>0 < f \<le> 1\<close> whose
  \<^verbatim>\<open>inner = int(S * f)\<close> (the double product, truncated) is at least 1, \<^verbatim>\<open>padded\<close>
  returns a new \<open>S\<close> by \<open>S\<close> canvas and leaves the source image as it was. The source is
  resized to \<open>inner\<close> by \<open>inner\<close> pixels and pasted at offset \<open>(S - inner) div 2\<close> on both
  axes through its own alpha channel: a canvas pixel under the pasted square is the
  resized pixel blended over full transparency with its own alpha (the resized pixel
  itself where that is opaque), and every other canvas pixel is fully transparent.
\<close>

theorem padded_canvas_content:
  assumes "0 < S" and "S \<le> 2 ^ 53" and "0 < f" and "f \<le> 1" and "img < next_ref s"
    and "int_of_product S (Finite f) = Inr inner" and "1 \<le> inner"
  shows "\<exists>s'. padded P img S (Finite f) s = (Inr (next_ref s), s')
    \<and> objs s' img = objs s img
    \<and> width (objs s' (next_ref s)) = S \<and> height (objs s' (next_ref s)) = S
    \<and> width (resized_image P (objs s img) (inner, inner)) = inner
    \<and> height (resized_image P (objs s img) (inner, inner)) = inner
    \<and> 0 \<le> (S - inner) div 2 \<and> (S - inner) div 2 + inner \<le> S
    \<and> (\<forall>x y. inside (objs s' (next_ref s)) x y \<longrightarrow>
          px (objs s' (next_ref s)) x y =
            (if inside (resized_image P (objs s img) (inner, inner))
                  (x - (S - inner) div 2) (y - (S - inner) div 2)
             then blend
                    (alpha (px (resized_image P (objs s img) (inner, inner))
                              (x - (S - inner) div 2) (y - (S - inner) div 2)))
                    transparent
                    (px (resized_image P (objs s img) (inner, inner))
                       (x - (S - inner) div 2) (y - (S - inner) div 2))
             else transparent))
    \<and> (\<forall>x y. inside (resized_image P (objs s img) (inner, inner))
                 (x - (S - inner) div 2) (y - (S - inner) div 2)
               \<and> alpha (px (resized_image P (objs s img) (inner, inner))
                           (x - (S - inner) div 2) (y - (S - inner) div 2)) = 255 \<longrightarrow>
          px (objs s' (next_ref s)) x y =
            px (resized_image P (objs s img) (inner, inner))
              (x - (S - inner) div 2) (y - (S - inner) div 2))"
proof -
  let ?R = "resized_image P (objs s img) (inner, inner)"
  let ?o = "(S - inner) div 2"
  from int_of_product_bounds [OF assms(1-4)] assms(6) have le: "inner \<le> S" by simp
  have off: "0 \<le> ?o" "?o + inner \<le> S" using le by simp_all
  from padded_result [OF _ assms(6,7,5), of P] assms(1) obtain s' where
    s': "padded P img S (Finite f) s = (Inr (next_ref s), s')"
      "objs s' (next_ref s) = pasted_canvas S ?R"
      "\<forall>r < next_ref s. objs s' r = objs s r"
    by auto
  have keep: "objs s' img = objs s img" using s'(3) assms(5) by simp
  have inC: "0 \<le> x \<and> x < S \<and> 0 \<le> y \<and> y < S" if "inside ?R (x - ?o) (y - ?o)" for x y
    using that off by (simp add: inside_def) linarith
  have a: "px (pasted_canvas S ?R) x y =
            (if inside ?R (x - ?o) (y - ?o)
             then blend (alpha (px ?R (x - ?o) (y - ?o))) transparent (px ?R (x - ?o) (y - ?o))
             else transparent)" for x y
    using inC [of x y] by (simp add: pasted_canvas_px)
  have b: "px (pasted_canvas S ?R) x y = px ?R (x - ?o) (y - ?o)"
    if "inside ?R (x - ?o) (y - ?o)" "alpha (px ?R (x - ?o) (y - ?o)) = 255" for x y
    using that by (simp add: a)
  show ?thesis
    apply (rule exI [of _ s'])
    using s'(1) keep off a b unfolding s'(2) by simp
qed

lemma quarter_of_2: "int_of_product 2 (Finite (1 / 4)) = Inr 0"
  by (simp add: int_of_product_def py_mul_int_float_def float_of_int_exact
      round_double_eval [where e = "- 1"] round_half_even_def Let_def)

lemma third_of_3: "int_of_product 3 (Finite (6004799503160661 / 18014398509481984)) = Inr 1"
  by (simp add: int_of_product_def py_mul_int_float_def float_of_int_exact
      round_double_eval [where e = "- 1"] round_half_even_def Let_def)

lemma sample_padded_full:
  "padded sample_pil 0 2 (Finite 1) sample_state = (Inr 1, s') \<Longrightarrow>
   objs s' 1 = pasted_canvas 2 sample_image"
  using padded_result [of 2 "Finite 1" 2 0 sample_state sample_pil]
  by (auto simp: int_of_product_one resized_image_def sample_image_def)

theorem padded_canvas_content_counterexample:
  "fst (padded sample_pil 0 2 (Finite (1 / 4)) sample_state) = Inl ValueError
   \<and> px (objs (snd (padded sample_pil 0 2 (Finite 1) sample_state)) 1) 1 0
       = \<lparr>red = 100, green = 50, blue = 25, alpha = 64\<rparr>
   \<and> px (resized_image sample_pil sample_image (2, 2)) 1 0
       = \<lparr>red = 200, green = 100, blue = 50, alpha = 128\<rparr>
   \<and> int_of_product 3 (Finite (6004799503160661 / 18014398509481984)) = Inr 1
   \<and> \<lfloor>3 * (6004799503160661 / 18014398509481984 :: rat)\<rfloor> = 0"
proof -
  have 1: "fst (padded sample_pil 0 2 (Finite (1 / 4)) sample_state) = Inl ValueError"
    by (simp add: padded_def Image_new_def quarter_of_2 resize_def sample_image_def alloc_def)
  obtain s' where s': "padded sample_pil 0 2 (Finite 1) sample_state = (Inr 1, s')"
    using padded_result [of 2 "Finite 1" 2 0 sample_state sample_pil]
    by (auto simp: int_of_product_one)
  have 2: "px (objs s' 1) 1 0 = \<lparr>red = 100, green = 50, blue = 25, alpha = 64\<rparr>"
    unfolding sample_padded_full [OF s']
    by (simp add: pasted_canvas_px sample_image_def inside_def blend_def BLEND8_def transparent_def)
  have 3: "px (resized_image sample_pil sample_image (2, 2)) 1 0
       = \<lparr>red = 200, green = 100, blue = 50, alpha = 128\<rparr>"
    by (simp add: resized_image_def sample_image_def)
  show ?thesis using 1 2 3 third_of_3 by (simp add: s')
qed

theorem padded_canvas_content_witness:
  "fst (padded sample_pil 0 96 (Finite (6004799503160661 / 9007199254740992)) sample_state) = Inr 1
   \<and> width (objs (snd (padded sample_pil 0 96 (Finite (6004799503160661 / 9007199254740992))
                 sample_state)) 1) = 96
   \<and> px (objs (snd (padded sample_pil 0 96 (Finite (6004799503160661 / 9007199254740992))
                 sample_state)) 1) 0 0 = transparent
   \<and> px (objs (snd (padded sample_pil 0 96 (Finite (6004799503160661 / 9007199254740992))
                 sample_state)) 1) 16 16 = \<lparr>red = 200, green = 100, blue = 50, alpha = 255\<rparr>"
proof -
  have r: "px (resized_image sample_pil sample_image (64, 64)) 0 0
           = \<lparr>red = 200, green = 100, blue = 50, alpha = 255\<rparr>"
    by (simp add: resized_image_def sample_image_def sample_pil_def nearest_def)
  from padded_canvas_content
         [of 96 "6004799503160661 / 9007199254740992" 0 sample_state 64 sample_pil,
          OF _ _ _ _ _ two_thirds_of_96]
  obtain s' where
    s': "padded sample_pil 0 96 (Finite (6004799503160661 / 9007199254740992)) sample_state
           = (Inr 1, s')"
    and w: "width (objs s' 1) = 96" "height (objs s' 1) = 96"
    and p: "\<forall>x y. inside (objs s' 1) x y \<longrightarrow>
          px (objs s' 1) x y =
            (if inside (resized_image sample_pil sample_image (64, 64)) (x - 16) (y - 16)
             then blend (alpha (px (resized_image sample_pil sample_image (64, 64)) (x - 16) (y - 16)))
                    transparent (px (resized_image sample_pil sample_image (64, 64)) (x - 16) (y - 16))
             else transparent)"
    by auto
  have i: "inside (objs s' 1) 0 0" "inside (objs s' 1) 16 16" using w by (simp_all add: inside_def)
  have "px (objs s' 1) 0 0 = transparent" using p i(1) by (simp add: inside_def)
  moreover have "px (objs s' 1) 16 16 = \<lparr>red = 200, green = 100, blue = 50, alpha = 255\<rparr>"
    using p i(2) r by (simp add: inside_def)
  ultimately show ?thesis using s' w by simp
qed

section \<open>Corner rounding\<close>

lemma rounded_image_size [simp]:
  "width (rounded_image P im r) = width im" "height (rounded_image P im r) = height im"
  by (simp_all add: rounded_image_def ImagingPaste_def)

lemma rounded_image_px:
  "px (rounded_image P im r) x y =
     (if inside im x y \<and> covers P (0, 0, width im, height im) r x y then px im x y
      else transparent)"
  by (simp add: rounded_image_def ImagingPaste_def rounded_rectangle_def inside_def)

lemma rounded_result:
  assumes "int_of_product (min (width (objs s img)) (height (objs s img))) radius_frac = Inr r"
    and "0 \<le> width (objs s img)" and "0 \<le> height (objs s img)" and "img < next_ref s"
  shows "\<exists>s'. rounded P img radius_frac s = (Inr (next_ref s), s')
    \<and> objs s' (next_ref s) = rounded_image P (objs s img) r
    \<and> (\<forall>q < next_ref s. objs s' q = objs s q)
    \<and> next_ref s' = Suc (next_ref s)
    \<and> written s' = written s \<and> stdout s' = stdout s"
proof -
  let ?w = "width (objs s img)" and ?h = "height (objs s img)"
  let ?c0 = "\<lparr>width = ?w, height = ?h, px = (\<lambda>x y. transparent)\<rparr>"
  let ?s1 = "snd (alloc ?c0 s)"
  let ?m = "rounded_rectangle P \<lparr>width = ?w, height = ?h, px = (\<lambda>x y. 0)\<rparr> (0, 0, ?w, ?h) r 255"
  have l: "Image_new_L (?w, ?h) 0 = Inr \<lparr>width = ?w, height = ?h, px = (\<lambda>x y. 0)\<rparr>"
    using assms(2,3) by (simp add: Image_new_L_def)
  have n: "Image_new (?w, ?h) transparent s = (Inr (next_ref s), ?s1)"
    using assms(2,3) by (simp add: Image_new_ok alloc_def)
  have o: "objs ?s1 img = objs s img" "objs ?s1 (next_ref s) = ?c0" using assms(4) by simp_all
  have p: "paste (next_ref s) img (0, 0) (MaskL ?m) ?s1
           = (Inr (), ?s1\<lparr>objs := (objs ?s1)(next_ref s := rounded_image P (objs s img) r)\<rparr>)"
    unfolding paste_def mask_band_def Let_def o rounded_image_def
    by (simp add: rounded_rectangle_def)
  have "rounded P img radius_frac s
        = (Inr (next_ref s), ?s1\<lparr>objs := (objs ?s1)(next_ref s := rounded_image P (objs s img) r)\<rparr>)"
    unfolding rounded_def Let_def assms(1) l n by (simp add: p)
  then show ?thesis using assms(4) by simp
qed

text \<open>
  C9. Whenever the radius computation succeeds on an allocated image (and only then),
  \<^verbatim>\<open>rounded\<close> returns a new image each of whose pixels is either fully transparent (all
  four channels 0) or the source pixel at that place, alpha included: the mask holds 0 and
  255 only, and blending with 0 keeps the transparent canvas while blending with 255
  copies the source.
\<close>

theorem rounded_mask_is_binary:
  assumes "int_of_product (min (width (objs s img)) (height (objs s img))) radius_frac = Inr r"
    and "0 \<le> width (objs s img)" and "0 \<le> height (objs s img)" and "img < next_ref s"
  shows "\<exists>s'. rounded P img radius_frac s = (Inr (next_ref s), s')
    \<and> (\<forall>x y. inside (objs s' (next_ref s)) x y \<longrightarrow>
          px (objs s' (next_ref s)) x y = transparent
          \<or> px (objs s' (next_ref s)) x y = px (objs s img) x y)"
proof -
  from rounded_result [OF assms, of P] obtain s' where
    s': "rounded P img radius_frac s = (Inr (next_ref s), s')"
      "objs s' (next_ref s) = rounded_image P (objs s img) r"
    by blast
  show ?thesis
    apply (rule exI [of _ s'])
    unfolding s'(2) using s'(1) by (simp add: rounded_image_px)
qed

text \<open>
  C4. For every image (sides not negative, the shorter one below \<open>2 ^ 1023\<close>, so that
  Python converts it to a double, which holds for every size Pillow allocates) and every
  radius fraction \<open>0 < r \<le> 1 / 2\<close>, \<^verbatim>\<open>rounded\<close> returns a new image of the same size and
  leaves the input object as it was. The corner radius is \<open>r * min w h\<close> in whole pixels,
  \<^verbatim>\<open>int(min(w, h) * r)\<close>, a number between 0 and \<open>min w h\<close>, and the rectangle is
  \<^verbatim>\<open>[0, 0, w, h]\<close>. Every pixel outside the region the rasteriser covers for that
  rectangle and radius is fully transparent in the result (alpha 0), and every pixel inside
  it is the source pixel, alpha included.
\<close>

theorem rounded_clears_outside_keeps_inside:
  assumes "img < next_ref s"
    and "0 \<le> width (objs s img)" and "0 \<le> height (objs s img)"
    and "min (width (objs s img)) (height (objs s img)) < 2 ^ 1023"
    and "0 < rf" and "rf \<le> 1 / 2"
  shows "\<exists>r s'. int_of_product (min (width (objs s img)) (height (objs s img))) (Finite rf) = Inr r
    \<and> 0 \<le> r \<and> r \<le> min (width (objs s img)) (height (objs s img))
    \<and> rounded P img (Finite rf) s = (Inr (next_ref s), s')
    \<and> next_ref s \<noteq> img
    \<and> objs s' img = objs s img
    \<and> width (objs s' (next_ref s)) = width (objs s img)
    \<and> height (objs s' (next_ref s)) = height (objs s img)
    \<and> (\<forall>x y. inside (objs s' (next_ref s)) x y
               \<and> \<not> covers P (0, 0, width (objs s img), height (objs s img)) r x y \<longrightarrow>
          px (objs s' (next_ref s)) x y = transparent \<and> alpha (px (objs s' (next_ref s)) x y) = 0)
    \<and> (\<forall>x y. inside (objs s' (next_ref s)) x y
               \<and> covers P (0, 0, width (objs s img), height (objs s img)) r x y \<longrightarrow>
          px (objs s' (next_ref s)) x y = px (objs s img) x y)"
proof -
  let ?m = "min (width (objs s img)) (height (objs s img))"
  have m: "0 \<le> ?m" using assms(2,3) by simp
  from int_of_product_half_bounds [OF m assms(4,5,6)] obtain r where
    r: "int_of_product ?m (Finite rf) = Inr r" "0 \<le> r" "r \<le> ?m" by blast
  from rounded_result [OF r(1) assms(2,3,1), of P] obtain s' where
    s': "rounded P img (Finite rf) s = (Inr (next_ref s), s')"
      "objs s' (next_ref s) = rounded_image P (objs s img) r"
      "\<forall>q < next_ref s. objs s' q = objs s q"
    by auto
  have keep: "objs s' img = objs s img" using s'(3) assms(1) by simp
  have new: "next_ref s \<noteq> img" using assms(1) by simp
  show ?thesis
    apply (rule exI [of _ r], rule exI [of _ s'])
    unfolding s'(2)
    using r s'(1) keep new by (simp add: rounded_image_px inside_def transparent_def)
qed

lemma half_of_2: "int_of_product 2 (Finite (1 / 2)) = Inr 1"
  by (simp add: int_of_product_def py_mul_int_float_def float_of_int_exact
      round_double_eval [where e = 0] round_half_even_def Let_def)

lemma fifth_of_512:
  "int_of_product 512 (Finite (3602879701896397 / 18014398509481984)) = Inr 102"
  by (simp add: int_of_product_def py_mul_int_float_def float_of_int_exact
      round_double_eval [where e = 6] round_half_even_def Let_def)

lemma sample_rounded:
  "rounded sample_pil 0 (Finite (1 / 2)) sample_state = (Inr 1, s') \<Longrightarrow>
   objs s' 1 = rounded_image sample_pil sample_image 1"
  using rounded_result [of sample_state 0 "Finite (1 / 2)" 1 sample_pil]
  by (auto simp: half_of_2 sample_image_def)

lemma sample_rounded_px:
  "px (rounded_image sample_pil sample_image 1) 0 0 = transparent"
  "px (rounded_image sample_pil sample_image 1) 1 0
     = \<lparr>red = 200, green = 100, blue = 50, alpha = 128\<rparr>"
  by (simp_all add: rounded_image_px sample_image_def sample_pil_def disc_corners_def inside_def)

theorem rounded_mask_is_binary_witness:
  "fst (rounded sample_pil 0 (Finite (1 / 2)) sample_state) = Inr 1
   \<and> px (objs (snd (rounded sample_pil 0 (Finite (1 / 2)) sample_state)) 1) 0 0 = transparent
   \<and> px (objs (snd (rounded sample_pil 0 (Finite (1 / 2)) sample_state)) 1) 1 0
       = px sample_image 1 0"
proof -
  have h: "int_of_product (min (width (objs sample_state 0)) (height (objs sample_state 0)))
             (Finite (1 / 2)) = Inr 1"
    using half_of_2 by (simp add: sample_image_def)
  from rounded_mask_is_binary [OF h, of sample_pil] obtain s' where
    s': "rounded sample_pil 0 (Finite (1 / 2)) sample_state = (Inr 1, s')"
    by (auto simp: sample_image_def)
  show ?thesis
    using sample_rounded [OF s'] sample_rounded_px by (simp add: s' sample_image_def)
qed

theorem rounded_clears_outside_keeps_inside_witness:
  "int_of_product (min 2 2) (Finite (1 / 2)) = Inr 1
   \<and> fst (rounded sample_pil 0 (Finite (1 / 2)) sample_state) = Inr 1
   \<and> objs (snd (rounded sample_pil 0 (Finite (1 / 2)) sample_state)) 0 = sample_image
   \<and> width (objs (snd (rounded sample_pil 0 (Finite (1 / 2)) sample_state)) 1) = 2
   \<and> alpha (px (objs (snd (rounded sample_pil 0 (Finite (1 / 2)) sample_state)) 1) 0 0) = 0
   \<and> px (objs (snd (rounded sample_pil 0 (Finite (1 / 2)) sample_state)) 1) 1 0
       = \<lparr>red = 200, green = 100, blue = 50, alpha = 128\<rparr>"
proof -
  from rounded_clears_outside_keeps_inside [of 0 sample_state "1 / 2" sample_pil] obtain r s' where
    s': "rounded sample_pil 0 (Finite (1 / 2)) sample_state = (Inr 1, s')"
    and k: "objs s' 0 = sample_image" "width (objs s' 1) = 2"
    by (auto simp: sample_image_def)
  show ?thesis
    using sample_rounded [OF s'] sample_rounded_px k half_of_2
    by (simp add: s' transparent_def)
qed

text \<open>
  A 512 by 512 image and the default fraction 0.2: the radius is 102 pixels.
\<close>

lemma rounded_512_fifth:
  "int_of_product (min 512 512) (Finite (3602879701896397 / 18014398509481984)) = Inr 102
   \<and> objs (snd (rounded sample_pil 0 (Finite (3602879701896397 / 18014398509481984))
               (snd (alloc red_square initial)))) 1
       = rounded_image sample_pil red_square 102"
proof -
  let ?s = "snd (alloc red_square initial)"
  have o: "objs ?s 0 = red_square" "next_ref ?s = 1" by (simp_all add: initial_def)
  have h: "int_of_product (min (width (objs ?s 0)) (height (objs ?s 0)))
             (Finite (3602879701896397 / 18014398509481984)) = Inr 102"
    unfolding o using fifth_of_512 by (simp add: red_square_def)
  from rounded_result [OF h, of sample_pil] have
    "objs (snd (rounded sample_pil 0 (Finite (3602879701896397 / 18014398509481984)) ?s)) 1
       = rounded_image sample_pil red_square 102"
    unfolding o by (auto simp: red_square_def)
  then show ?thesis using fifth_of_512 by simp
qed

section \<open>The run: every artifact and every line\<close>

lemma emitsI:
  assumes "\<And>s. keeps R s \<Longrightarrow> \<exists>s'. m s = (Inr (), s') \<and> keeps R s'
           \<and> written s' = written s @ map snd evs
           \<and> stdout s' = stdout s @ map progress_line evs"
  shows "emits R m evs"
  using assms unfolding emits_def by blast

lemma emitsD:
  assumes "emits R m evs" and "keeps R s"
  obtains s' where "m s = (Inr (), s')" "keeps R s'"
    "written s' = written s @ map snd evs" "stdout s' = stdout s @ map progress_line evs"
  using assms unfolding emits_def by blast

lemma keeps_frame:
  assumes "keeps R s" and "next_ref s \<le> next_ref s'" and "\<forall>r < next_ref s. objs s' r = objs s r"
  shows "keeps R s'"
  using assms unfolding keeps_def list_all_iff by fastforce

lemma keeps_lookup: "keeps R s \<Longrightarrow> (r, im) \<in> set R \<Longrightarrow> r < next_ref s \<and> objs s r = im"
  unfolding keeps_def list_all_iff by fastforce

lemma emits_bind:
  assumes "emits R m evs1" and "emits R g evs2"
  shows "emits R (bind m (\<lambda>u. g)) (evs1 @ evs2)"
proof (rule emitsI)
  fix s assume k: "keeps R s"
  from emitsD [OF assms(1) k] obtain s1 where
    1: "m s = (Inr (), s1)" "keeps R s1" "written s1 = written s @ map snd evs1"
       "stdout s1 = stdout s @ map progress_line evs1" by blast
  from emitsD [OF assms(2) 1(2)] obtain s2 where
    2: "g s1 = (Inr (), s2)" "keeps R s2" "written s2 = written s1 @ map snd evs2"
       "stdout s2 = stdout s1 @ map progress_line evs2" by blast
  show "\<exists>s'. bind m (\<lambda>u. g) s = (Inr (), s') \<and> keeps R s'
           \<and> written s' = written s @ map snd (evs1 @ evs2)
           \<and> stdout s' = stdout s @ map progress_line (evs1 @ evs2)"
    using 1 2 by (simp add: bind_def)
qed

lemma emits_for_each:
  assumes "\<And>x. x \<in> set xs \<Longrightarrow> emits R (f x) (E x)"
  shows "emits R (for_each f xs) (concat (map E xs))"
  using assms
proof (induction xs)
  case Nil
  show ?case by (rule emitsI) simp
next
  case (Cons x xs)
  have a: "emits R (f x) (E x)" using Cons.prems by simp
  have b: "emits R (for_each f xs) (concat (map E xs))" using Cons by simp
  show ?case
  proof (rule emitsI)
    fix s assume k: "keeps R s"
    from emitsD [OF a k] obtain s1 where
      1: "f x s = (Inr (), s1)" "keeps R s1" "written s1 = written s @ map snd (E x)"
         "stdout s1 = stdout s @ map progress_line (E x)" by blast
    from emitsD [OF b 1(2)] obtain s2 where
      2: "for_each f xs s1 = (Inr (), s2)" "keeps R s2"
         "written s2 = written s1 @ map snd (concat (map E xs))"
         "stdout s2 = stdout s1 @ map progress_line (concat (map E xs))" by blast
    show "\<exists>s'. for_each f (x # xs) s = (Inr (), s') \<and> keeps R s'
           \<and> written s' = written s @ map snd (concat (map E (x # xs)))
           \<and> stdout s' = stdout s @ map progress_line (concat (map E (x # xs)))"
      using 1 2 by simp
  qed
qed

lemma emits_save_png:
  assumes "(img, im) \<in> set R"
  shows "emits R (save_png P img dest) [(''png'', dest, png_file P im)]"
proof (rule emitsI)
  fix s assume k: "keeps R s"
  have "objs s img = im" using keeps_lookup [OF k assms] by simp
  then show "\<exists>s'. save_png P img dest s = (Inr (), s') \<and> keeps R s'
           \<and> written s' = written s @ map snd [(''png'', dest, png_file P im)]
           \<and> stdout s' = stdout s @ map progress_line [(''png'', dest, png_file P im)]"
    using k by (simp add: save_png_def ensure_parent_def write_file_def print_line_def
                  progress_line_def png_file_def keeps_def)
qed

lemma emits_save_svg:
  assumes "(img, im) \<in> set R"
  shows "emits R (save_svg_from_png P img dest) [(''svg'', dest, svg_file P im)]"
proof (rule emitsI)
  fix s assume k: "keeps R s"
  have "objs s img = im" using keeps_lookup [OF k assms] by simp
  then show "\<exists>s'. save_svg_from_png P img dest s = (Inr (), s') \<and> keeps R s'
           \<and> written s' = written s @ map snd [(''svg'', dest, svg_file P im)]
           \<and> stdout s' = stdout s @ map progress_line [(''svg'', dest, svg_file P im)]"
    using k by (simp add: save_svg_from_png_def ensure_parent_def write_file_def print_line_def
                  progress_line_def svg_file_def keeps_def Let_def)
qed

lemma emits_write_xml:
  "emits R (write_xml dest text) [(''xml'', dest, Text text)]"
proof (rule emitsI)
  fix s assume k: "keeps R s"
  then show "\<exists>s'. write_xml dest text s = (Inr (), s') \<and> keeps R s'
           \<and> written s' = written s @ map snd [(''xml'', dest, Text text)]
           \<and> stdout s' = stdout s @ map progress_line [(''xml'', dest, Text text)]"
    by (simp add: write_xml_def ensure_parent_def write_file_def print_line_def
                  progress_line_def keeps_def Let_def)
qed

lemma emits_save_ico:
  assumes "(base, B) \<in> set R"
  shows "emits R (save_ico P base dest default_sizes) [(''ico'', dest, ico_file P B)]"
proof (rule emitsI)
  fix s assume k: "keeps R s"
  have b: "base < next_ref s" "objs s base = B" using keeps_lookup [OF k assms] by simp_all
  have sz: "\<forall>x \<in> set default_sizes. 1 \<le> x" by (simp add: default_sizes_def)
  from resize_all_ok [OF sz b(1), of P] obtain s1 where
    A: "resize_all P base default_sizes s
          = (Inr (map (\<lambda>i. next_ref s + i) [0 ..< length default_sizes]), s1)"
    and B: "next_ref s1 = next_ref s + length default_sizes" "written s1 = written s"
      "stdout s1 = stdout s"
    and C: "\<forall>r < next_ref s. objs s1 r = objs s r"
    and D: "\<forall>i < length default_sizes. objs s1 (next_ref s + i)
              = resized_image P (objs s base) (default_sizes ! i, default_sizes ! i)"
    by blast
  have k1: "keeps R s1" using keeps_frame [OF k _ C] B(1) by simp
  have l: "objs s1 (next_ref s + 3) = resized_image P B (64, 64)"
    using D b(2) by (simp add: default_sizes_def)
  have rs: "map (\<lambda>i. next_ref s + i) [0 ..< length default_sizes]
            = [next_ref s, next_ref s + 1, next_ref s + 2, next_ref s + 3]"
    by (simp add: default_sizes_def upt_rec)
  show "\<exists>s'. save_ico P base dest default_sizes s = (Inr (), s') \<and> keeps R s'
           \<and> written s' = written s @ map snd [(''ico'', dest, ico_file P B)]
           \<and> stdout s' = stdout s @ map progress_line [(''ico'', dest, ico_file P B)]"
    using A B k1 l unfolding rs
    by (simp add: save_ico_def ensure_parent_def write_file_def print_line_def Let_def
          progress_line_def ico_file_def keeps_def default_sizes_def)
qed

lemma emits_resize_save:
  assumes "(base, B) \<in> set R" and "1 \<le> S"
  shows "emits R (bind (resize P base (S, S)) (\<lambda>r. save_png P r dest))
           [(''png'', dest, png_file P (resized_image P B (S, S)))]"
proof (rule emitsI)
  fix s assume k: "keeps R s"
  have b: "base < next_ref s" "objs s base = B" using keeps_lookup [OF k assms(1)] by simp_all
  let ?s1 = "snd (alloc (resized_image P B (S, S)) s)"
  have r: "resize P base (S, S) s = (Inr (next_ref s), ?s1)"
    using assms(2) b by (simp add: resize_ok alloc_def)
  have k1: "keeps R ?s1" by (rule keeps_frame [OF k]) simp_all
  show "\<exists>s'. bind (resize P base (S, S)) (\<lambda>r. save_png P r dest) s = (Inr (), s') \<and> keeps R s'
           \<and> written s' = written s @ map snd [(''png'', dest, png_file P (resized_image P B (S, S)))]
           \<and> stdout s' = stdout s
                @ map progress_line [(''png'', dest, png_file P (resized_image P B (S, S)))]"
    using k1 unfolding bind_def r
    by (simp add: save_png_def ensure_parent_def write_file_def print_line_def
          progress_line_def png_file_def keeps_def)
qed

lemma padded_keeps:
  assumes "keeps R s" and "(base, B) \<in> set R" and "0 \<le> S"
    and "int_of_product S scale = Inr inner" and "1 \<le> inner"
  obtains s1 where "padded P base S scale s = (Inr (next_ref s), s1)"
    "keeps ((next_ref s, pasted_canvas S (resized_image P B (inner, inner))) # R) s1"
    "written s1 = written s" "stdout s1 = stdout s"
proof -
  have b: "base < next_ref s" "objs s base = B" using keeps_lookup [OF assms(1,2)] by simp_all
  from padded_result [OF assms(3,4,5) b(1), of P] obtain s1 where
    1: "padded P base S scale s = (Inr (next_ref s), s1)"
      "objs s1 (next_ref s) = pasted_canvas S (resized_image P (objs s base) (inner, inner))"
      "\<forall>r < next_ref s. objs s1 r = objs s r" "next_ref s1 = next_ref s + 2"
      "written s1 = written s" "stdout s1 = stdout s"
    by blast
  have "keeps R s1" using keeps_frame [OF assms(1) _ 1(3)] 1(4) by simp
  then have "keeps ((next_ref s, pasted_canvas S (resized_image P B (inner, inner))) # R) s1"
    using 1(2,4) b(2) by (simp add: keeps_def)
  with 1 that show ?thesis by blast
qed

lemma emits_weaken:
  assumes "emits (x # R) m evs" 
  shows "\<And>s. keeps (x # R) s \<Longrightarrow> \<exists>s'. m s = (Inr (), s') \<and> keeps R s'
           \<and> written s' = written s @ map snd evs
           \<and> stdout s' = stdout s @ map progress_line evs"
  using assms unfolding emits_def keeps_def by fastforce

lemma two_thirds: "py_truediv 2 3 = Inr (Finite (6004799503160661 / 9007199254740992))"
  by (simp add: py_truediv_def round_double_eval [where e = "-1"] round_half_even_def Let_def)

lemma emits_padded_save_all:
  assumes "(base, B) \<in> set R" and "0 \<le> S"
    and "int_of_product S (Finite (6004799503160661 / 9007199254740992)) = Inr inner"
    and "1 \<le> inner"
  shows "emits R
     (bind (raise (py_truediv 2 3)) (\<lambda>scale.
      bind (padded P base S scale) (\<lambda>icon.
      for_each (\<lambda>name. save_png P icon (dir @ [name])) names)))
     (map (\<lambda>name. (''png'', dir @ [name],
                     png_file P (pasted_canvas S (resized_image P B (inner, inner))))) names)"
proof (rule emitsI)
  fix s assume k: "keeps R s"
  let ?C = "pasted_canvas S (resized_image P B (inner, inner))"
  from padded_keeps [OF k assms, of P] obtain s1 where
    1: "padded P base S (Finite (6004799503160661 / 9007199254740992)) s = (Inr (next_ref s), s1)"
      "keeps ((next_ref s, ?C) # R) s1" "written s1 = written s" "stdout s1 = stdout s"
    by blast
  have "emits ((next_ref s, ?C) # R)
          (for_each (\<lambda>name. save_png P (next_ref s) (dir @ [name])) names)
          (concat (map (\<lambda>name. [(''png'', dir @ [name], png_file P ?C)]) names))"
    by (rule emits_for_each) (rule emits_save_png, simp)
  from emits_weaken [OF this 1(2)] obtain s2 where
    2: "for_each (\<lambda>name. save_png P (next_ref s) (dir @ [name])) names s1 = (Inr (), s2)"
      "keeps R s2"
      "written s2 = written s1
         @ map snd (concat (map (\<lambda>name. [(''png'', dir @ [name], png_file P ?C)]) names))"
      "stdout s2 = stdout s1
         @ map progress_line (concat (map (\<lambda>name. [(''png'', dir @ [name], png_file P ?C)]) names))"
    by blast
  have c: "concat (map (\<lambda>name. [(''png'', dir @ [name], png_file P ?C)]) names)
           = map (\<lambda>name. (''png'', dir @ [name], png_file P ?C)) names"
    by (induction names) simp_all
  show "\<exists>s'. bind (raise (py_truediv 2 3)) (\<lambda>scale.
          bind (padded P base S scale) (\<lambda>icon.
          for_each (\<lambda>name. save_png P icon (dir @ [name])) names)) s = (Inr (), s') \<and> keeps R s'
           \<and> written s' = written s @ map snd (map (\<lambda>name. (''png'', dir @ [name], png_file P ?C)) names)
           \<and> stdout s' = stdout s
                @ map progress_line (map (\<lambda>name. (''png'', dir @ [name], png_file P ?C)) names)"
    using 1 2 unfolding c by (simp add: bind_def raise_def two_thirds)
qed

lemma launcher_inner:
  "int_of_product 48 (Finite (6004799503160661 / 9007199254740992)) = Inr 32"
  "int_of_product 72 (Finite (6004799503160661 / 9007199254740992)) = Inr 48"
  "int_of_product 96 (Finite (6004799503160661 / 9007199254740992)) = Inr 64"
  "int_of_product 144 (Finite (6004799503160661 / 9007199254740992)) = Inr 96"
  "int_of_product 192 (Finite (6004799503160661 / 9007199254740992)) = Inr 128"
  "int_of_product 108 (Finite (6004799503160661 / 9007199254740992)) = Inr 72"
  "int_of_product 162 (Finite (6004799503160661 / 9007199254740992)) = Inr 108"
  "int_of_product 216 (Finite (6004799503160661 / 9007199254740992)) = Inr 144"
  "int_of_product 324 (Finite (6004799503160661 / 9007199254740992)) = Inr 216"
  "int_of_product 432 (Finite (6004799503160661 / 9007199254740992)) = Inr 288"
  by (simp_all add: int_of_product_def py_mul_int_float_def float_of_int_exact
      round_double_eval [where e = 4] round_double_eval [where e = 5]
      round_double_eval [where e = 6] round_double_eval [where e = 7]
      round_double_eval [where e = 8] round_half_even_def Let_def)

lemma finishes_bind:
  assumes "emits R m evs1" and "finishes R g evs2 rest"
  shows "finishes R (bind m (\<lambda>u. g)) (evs1 @ evs2) rest"
  unfolding finishes_def
proof (intro allI impI)
  fix s assume k: "keeps R s"
  from emitsD [OF assms(1) k] obtain s1 where
    1: "m s = (Inr (), s1)" "keeps R s1" "written s1 = written s @ map snd evs1"
       "stdout s1 = stdout s @ map progress_line evs1" by blast
  from assms(2) 1(2) obtain s2 where
    2: "g s1 = (Inr (), s2)" "written s2 = written s1 @ map snd evs2"
       "stdout s2 = stdout s1 @ map progress_line evs2 @ rest"
    unfolding finishes_def by blast
  show "\<exists>s'. bind m (\<lambda>u. g) s = (Inr (), s')
           \<and> written s' = written s @ map snd (evs1 @ evs2)
           \<and> stdout s' = stdout s @ map progress_line (evs1 @ evs2) @ rest"
    using 1 2 by (simp add: bind_def)
qed

lemma finishes_done: "finishes R (\<lambda>s. (Inr (), print_line ''done'' s)) [] [''done'']"
  by (simp add: finishes_def print_line_def)

lemma for_each_single: "for_each f [x] = f x"
  by (rule ext) (simp split: prod.splits sum.splits)

lemma concat_map_single: "concat (map (\<lambda>x. [g x]) xs) = map g xs"
  by (induction xs) simp_all

lemma emits_for_each_single:
  assumes "\<And>x. x \<in> set xs \<Longrightarrow> emits R (f x) [g x]"
  shows "emits R (for_each f xs) (map g xs)"
  using emits_for_each [of xs R f "\<lambda>x. [g x]"] assms by (simp add: concat_map_single)

lemma emits_branding:
  assumes "(base, B) \<in> set R"
  shows "emits R (branding P ROOT base)
    [(''png'', ROOT @ [''packages'', ''branding'', ''icons'', ''tasktrove-icon.png''], png_file P B),
     (''svg'', ROOT @ [''packages'', ''branding'', ''icons'', ''tasktrove-icon.svg''], svg_file P B)]"
  unfolding branding_def
  using emits_bind [OF emits_save_png [OF assms] emits_save_svg [OF assms]] by simp

lemma emits_public_copies:
  assumes "(base, B) \<in> set R"
  shows "emits R (public_copies P ROOT base)
           (map (\<lambda>dest. (''svg'', dest, svg_file P B)) (public_targets ROOT))"
  unfolding public_copies_def
  by (rule emits_for_each_single) (rule emits_save_svg [OF assms])

lemma emits_app_icons:
  assumes "(base, B) \<in> set R" and "(rounded_img, RB) \<in> set R"
  shows "emits R (app_icons P ROOT base rounded_img)
           (map (\<lambda>dest. (''svg'', dest, svg_file P B)) (icon0_targets ROOT)
            @ map (\<lambda>dest. (''svg'', dest, svg_file P RB)) (icon_rounded_targets ROOT))"
  unfolding app_icons_def
  by (rule emits_bind; rule emits_for_each_single) (rule emits_save_svg, rule assms)+

lemma emits_sized_pngs:
  assumes "(base, B) \<in> set R"
  shows "emits R (sized_pngs P ROOT base)
           (map (\<lambda>(dest, size). (''png'', dest, png_file P (resized_image P B (size, size))))
              (png_sizes ROOT))"
  unfolding sized_pngs_def
proof (rule emits_for_each_single)
  fix x assume "x \<in> set (png_sizes ROOT)"
  then have "1 \<le> snd x" by (auto simp: png_sizes_def)
  from emits_resize_save [OF assms this, of P "fst x"]
  show "emits R (case x of (dest, sz) \<Rightarrow> bind (resize P base (sz, sz)) (\<lambda>r. save_png P r dest))
          [case x of (dest, sz) \<Rightarrow> (''png'', dest, png_file P (resized_image P B (sz, sz)))]"
    by (simp add: case_prod_unfold)
qed

lemma emits_favicons:
  assumes "(base, B) \<in> set R"
  shows "emits R (favicons P ROOT base)
           (map (\<lambda>dest. (''ico'', dest, ico_file P B)) (favicon_targets ROOT))"
  unfolding favicons_def
  by (rule emits_for_each_single) (rule emits_save_ico [OF assms])

lemma launcher_sizes:
  assumes "x \<in> set classic \<or> x \<in> set foreground"
  shows "0 \<le> snd x
    \<and> int_of_product (snd x) (Finite (6004799503160661 / 9007199254740992))
        = Inr (snd x * 2 div 3)
    \<and> 1 \<le> snd x * 2 div 3"
  using assms by (auto simp: classic_def foreground_def launcher_inner)

lemma emits_launcher_bitmaps:
  assumes "(base, B) \<in> set R"
  shows "emits R (launcher_bitmaps P ROOT base)
     (concat (map (\<lambda>(folder, size).
         map (\<lambda>name. (''png'', res_root ROOT @ [folder, name], launcher_png P B size))
           [''ic_launcher.png'', ''ic_launcher_round.png'']) classic)
      @ map (\<lambda>(folder, size).
         (''png'', res_root ROOT @ [folder, ''ic_launcher_foreground.png''], launcher_png P B size))
         foreground)"
  unfolding launcher_bitmaps_def
proof (rule emits_bind)
  show "emits R
     (for_each (\<lambda>(folder, size).
         bind (raise (py_truediv 2 3)) (\<lambda>scale.
         bind (padded P base size scale) (\<lambda>icon.
         for_each (\<lambda>name. save_png P icon (res_root ROOT @ [folder, name]))
           [''ic_launcher.png'', ''ic_launcher_round.png''])))
       classic)
     (concat (map (\<lambda>(folder, size).
         map (\<lambda>name. (''png'', res_root ROOT @ [folder, name], launcher_png P B size))
           [''ic_launcher.png'', ''ic_launcher_round.png'']) classic))"
  proof (rule emits_for_each)
    fix x assume "x \<in> set classic"
    then have x: "0 \<le> snd x"
      "int_of_product (snd x) (Finite (6004799503160661 / 9007199254740992)) = Inr (snd x * 2 div 3)"
      "1 \<le> snd x * 2 div 3"
      using launcher_sizes [of x] by simp_all
    from emits_padded_save_all [OF assms x, of P "res_root ROOT @ [fst x]"
           "[''ic_launcher.png'', ''ic_launcher_round.png'']"]
    show "emits R
        (case x of (folder, sz) \<Rightarrow>
           bind (raise (py_truediv 2 3)) (\<lambda>scale.
           bind (padded P base sz scale) (\<lambda>icon.
           for_each (\<lambda>name. save_png P icon (res_root ROOT @ [folder, name]))
             [''ic_launcher.png'', ''ic_launcher_round.png''])))
        (case x of (folder, sz) \<Rightarrow>
           map (\<lambda>name. (''png'', res_root ROOT @ [folder, name], launcher_png P B sz))
             [''ic_launcher.png'', ''ic_launcher_round.png''])"
      by (simp add: case_prod_unfold launcher_png_def)
  qed
next
  show "emits R
     (for_each (\<lambda>(folder, size).
         bind (raise (py_truediv 2 3)) (\<lambda>scale.
         bind (padded P base size scale) (\<lambda>icon.
         save_png P icon (res_root ROOT @ [folder, ''ic_launcher_foreground.png'']))))
       foreground)
     (map (\<lambda>(folder, size).
         (''png'', res_root ROOT @ [folder, ''ic_launcher_foreground.png''], launcher_png P B size))
         foreground)"
  proof (rule emits_for_each_single)
    fix x assume "x \<in> set foreground"
    then have x: "0 \<le> snd x"
      "int_of_product (snd x) (Finite (6004799503160661 / 9007199254740992)) = Inr (snd x * 2 div 3)"
      "1 \<le> snd x * 2 div 3"
      using launcher_sizes [of x] by simp_all
    from emits_padded_save_all [OF assms x, of P "res_root ROOT @ [fst x]"
           "[''ic_launcher_foreground.png'']"]
    show "emits R
        (case x of (folder, sz) \<Rightarrow>
           bind (raise (py_truediv 2 3)) (\<lambda>scale.
           bind (padded P base sz scale) (\<lambda>icon.
           save_png P icon (res_root ROOT @ [folder, ''ic_launcher_foreground.png'']))))
        [case x of (folder, sz) \<Rightarrow>
           (''png'', res_root ROOT @ [folder, ''ic_launcher_foreground.png''], launcher_png P B sz)]"
      by (simp add: case_prod_unfold launcher_png_def for_each_single)
  qed
qed

lemma emits_xml_helpers:
  "emits R (xml_helpers ROOT)
    [(''xml'', res_root ROOT @ [''drawable-v24'', ''ic_launcher_foreground.xml''], Text fg_xml_content),
     (''xml'', res_root ROOT @ [''drawable'', ''ic_launcher_background.xml''], Text bg_xml_content)]"
  unfolding xml_helpers_def
  using emits_bind [OF emits_write_xml emits_write_xml] by simp

lemma emits_notification:
  assumes "(base, B) \<in> set R"
  shows "emits R (notification P ROOT base)
    [(''png'', res_root ROOT @ [''drawable'', ''ic_stat_tasktrove.png''],
      png_file P (pasted_canvas 96 (resized_image P B (96, 96))))]"
proof (rule emitsI)
  fix s assume k: "keeps R s"
  have i: "int_of_product 96 (Finite 1) = Inr 96" by (rule int_of_product_one) simp_all
  from padded_keeps [OF k assms _ i, of P] obtain s1 where
    1: "padded P base 96 (Finite 1) s = (Inr (next_ref s), s1)"
      "keeps ((next_ref s, pasted_canvas 96 (resized_image P B (96, 96))) # R) s1"
      "written s1 = written s" "stdout s1 = stdout s"
    by auto
  have g: "notification_glyph P base s = padded P base 96 (Finite 1) s"
    unfolding notification_glyph_def padded_def i Let_def bind_def raise_def
    by (simp split: prod.splits sum.splits)
  have "emits ((next_ref s, pasted_canvas 96 (resized_image P B (96, 96))) # R)
          (save_png P (next_ref s) (res_root ROOT @ [''drawable'', ''ic_stat_tasktrove.png'']))
          [(''png'', res_root ROOT @ [''drawable'', ''ic_stat_tasktrove.png''],
            png_file P (pasted_canvas 96 (resized_image P B (96, 96))))]"
    by (rule emits_save_png) simp
  from emits_weaken [OF this 1(2)] 1
  show "\<exists>s'. notification P ROOT base s = (Inr (), s') \<and> keeps R s'
     \<and> written s' = written s @ map snd
          [(''png'', res_root ROOT @ [''drawable'', ''ic_stat_tasktrove.png''],
            png_file P (pasted_canvas 96 (resized_image P B (96, 96))))]
     \<and> stdout s' = stdout s @ map progress_line
          [(''png'', res_root ROOT @ [''drawable'', ''ic_stat_tasktrove.png''],
            png_file P (pasted_canvas 96 (resized_image P B (96, 96))))]"
    by (auto simp: notification_def g bind_def)
qed

lemma generate_finishes:
  assumes "(base, B) \<in> set R" and "(rounded_img, RB) \<in> set R"
  shows "finishes R (generate P ROOT base rounded_img) (manifest P ROOT B RB) [''done'']"
proof -
  have "finishes R (generate P ROOT base rounded_img)
     ([(''png'', ROOT @ [''packages'', ''branding'', ''icons'', ''tasktrove-icon.png''], png_file P B),
       (''svg'', ROOT @ [''packages'', ''branding'', ''icons'', ''tasktrove-icon.svg''], svg_file P B)]
      @ map (\<lambda>dest. (''svg'', dest, svg_file P B)) (public_targets ROOT)
      @ (map (\<lambda>dest. (''svg'', dest, svg_file P B)) (icon0_targets ROOT)
          @ map (\<lambda>dest. (''svg'', dest, svg_file P RB)) (icon_rounded_targets ROOT))
      @ map (\<lambda>(dest, size). (''png'', dest, png_file P (resized_image P B (size, size))))
          (png_sizes ROOT)
      @ map (\<lambda>dest. (''ico'', dest, ico_file P B)) (favicon_targets ROOT)
      @ (concat (map (\<lambda>(folder, size).
           map (\<lambda>name. (''png'', res_root ROOT @ [folder, name], launcher_png P B size))
             [''ic_launcher.png'', ''ic_launcher_round.png'']) classic)
         @ map (\<lambda>(folder, size).
           (''png'', res_root ROOT @ [folder, ''ic_launcher_foreground.png''], launcher_png P B size))
           foreground)
      @ [(''xml'', res_root ROOT @ [''drawable-v24'', ''ic_launcher_foreground.xml''], Text fg_xml_content),
         (''xml'', res_root ROOT @ [''drawable'', ''ic_launcher_background.xml''], Text bg_xml_content)]
      @ [(''png'', res_root ROOT @ [''drawable'', ''ic_stat_tasktrove.png''],
          png_file P (pasted_canvas 96 (resized_image P B (96, 96))))]
      @ [])
     [''done'']"
    unfolding generate_def
    by (intro finishes_bind finishes_done emits_branding emits_public_copies emits_app_icons
          emits_sized_pngs emits_favicons emits_launcher_bitmaps emits_xml_helpers
          emits_notification assms)
  then show ?thesis by (simp add: manifest_def)
qed

lemma initial_simps [simp]:
  "next_ref initial = 0" "written initial = []" "stdout initial = []"
  by (simp_all add: initial_def)

lemma main_success:
  assumes "disk (source a) = Some c" and "open_rgba P c = Inr B"
    and "0 \<le> width B" and "0 \<le> height B"
    and "int_of_product (min (width B) (height B)) (radius a) = Inr r"
  shows "\<exists>s'. main P ROOT disk a initial = (Inr (), s')
    \<and> written s' = map snd (manifest P ROOT B (rounded_image P B r))
    \<and> stdout s' = map progress_line (manifest P ROOT B (rounded_image P B r)) @ [''done'']"
proof -
  let ?s1 = "snd (alloc B initial)"
  have s1: "objs ?s1 0 = B" "next_ref ?s1 = 1" "written ?s1 = []" "stdout ?s1 = []"
    by (simp_all add: initial_def)
  have a: "alloc B initial = (Inr 0, ?s1)" by (simp add: alloc_def initial_def)
  have h: "int_of_product (min (width (objs ?s1 0)) (height (objs ?s1 0))) (radius a) = Inr r"
    "0 \<le> width (objs ?s1 0)" "0 \<le> height (objs ?s1 0)" "0 < next_ref ?s1"
    unfolding s1 using assms(3-5) by simp_all
  from rounded_result [OF h, of P] obtain s2 where
    r2: "rounded P 0 (radius a) ?s1 = (Inr (next_ref ?s1), s2)"
      "objs s2 (next_ref ?s1) = rounded_image P (objs ?s1 0) r"
      "\<forall>q < next_ref ?s1. objs s2 q = objs ?s1 q"
      "next_ref s2 = Suc (next_ref ?s1)" "written s2 = written ?s1" "stdout s2 = stdout ?s1"
    by blast
  have s2: "rounded P 0 (radius a) ?s1 = (Inr 1, s2)" "objs s2 1 = rounded_image P B r"
      "objs s2 0 = B" "next_ref s2 = 2" "written s2 = []" "stdout s2 = []"
    using r2 unfolding s1 by (simp_all add: initial_def)
  have k: "keeps [(0, B), (1, rounded_image P B r)] s2"
    using s2 by (simp add: keeps_def)
  have "finishes [(0, B), (1, rounded_image P B r)] (generate P ROOT 0 1)
          (manifest P ROOT B (rounded_image P B r)) [''done'']"
    by (rule generate_finishes) simp_all
  with k obtain s' where
    "generate P ROOT 0 1 s2 = (Inr (), s')"
    "written s' = written s2 @ map snd (manifest P ROOT B (rounded_image P B r))"
    "stdout s' = stdout s2 @ map progress_line (manifest P ROOT B (rounded_image P B r)) @ [''done'']"
    unfolding finishes_def by blast
  then show ?thesis
    using assms(1,2) s2 by (simp add: main_def bind_def alloc_def)
qed

lemma manifest_tags:
  "set (map fst (manifest P ROOT B RB)) \<subseteq> {''png'', ''ico'', ''svg'', ''xml''}"
  by (auto simp: manifest_def)

lemma map2_progress:
  "map2 (\<lambda>tag (dest, c). tag @ '' -> '' @ render dest) (map fst M) (map snd M)
   = map progress_line M"
  by (induction M) (auto simp: progress_line_def)

text \<open>
  C6. When the resolved source path does not exist, \<^verbatim>\<open>main\<close> raises
  \<^verbatim>\<open>SystemExit("Source not found: ...")\<close> in the state it started in (no image object, no
  file written, no line printed) and the process ends with status 1. When the source
  exists, decodes to a non-empty image and \<^verbatim>\<open>int(min(w, h) * radius)\<close> can be computed,
  the run returns with status 0, and its output is one line
  \<^verbatim>\<open>tag -> destination\<close> per file written, in the order of the writes, followed by
  \<^verbatim>\<open>done\<close>.
\<close>

theorem main_exit_behaviour:
  "(disk (source a) = None \<longrightarrow>
      main P ROOT disk a s
        = (Inl (SystemExit (''Source not found: '' @ render (source a))), s)
      \<and> exit_status (fst (main P ROOT disk a s)) = 1)
   \<and> (disk (source a) = Some c \<and> open_rgba P c = Inr B \<and> 0 < width B \<and> 0 < height B
       \<and> int_of_product (min (width B) (height B)) (radius a) = Inr r \<longrightarrow>
      (\<exists>s' tags. main P ROOT disk a initial = (Inr (), s')
         \<and> exit_status (fst (main P ROOT disk a initial)) = 0
         \<and> length tags = length (written s')
         \<and> set tags \<subseteq> {''png'', ''ico'', ''svg'', ''xml''}
         \<and> stdout s'
             = map2 (\<lambda>tag (dest, c). tag @ '' -> '' @ render dest) tags (written s')
               @ [''done'']))"
proof (rule conjI; rule impI)
  assume "disk (source a) = None"
  then show "main P ROOT disk a s
        = (Inl (SystemExit (''Source not found: '' @ render (source a))), s)
      \<and> exit_status (fst (main P ROOT disk a s)) = 1"
    by (simp add: main_def raise_def exit_status_def)
next
  assume h: "disk (source a) = Some c \<and> open_rgba P c = Inr B \<and> 0 < width B \<and> 0 < height B
       \<and> int_of_product (min (width B) (height B)) (radius a) = Inr r"
  let ?M = "manifest P ROOT B (rounded_image P B r)"
  from h main_success [of disk a c P B r ROOT] obtain s' where
    s': "main P ROOT disk a initial = (Inr (), s')" "written s' = map snd ?M"
      "stdout s' = map progress_line ?M @ [''done'']"
    by auto
  show "\<exists>s' tags. main P ROOT disk a initial = (Inr (), s')
         \<and> exit_status (fst (main P ROOT disk a initial)) = 0
         \<and> length tags = length (written s')
         \<and> set tags \<subseteq> {''png'', ''ico'', ''svg'', ''xml''}
         \<and> stdout s'
             = map2 (\<lambda>tag (dest, c). tag @ '' -> '' @ render dest) tags (written s')
               @ [''done'']"
  proof (intro exI conjI)
    show "main P ROOT disk a initial = (Inr (), s')" by (rule s'(1))
    show "exit_status (fst (main P ROOT disk a initial)) = 0"
      by (simp add: s'(1) exit_status_def)
    show "length (map fst ?M) = length (written s')" by (simp add: s'(2))
    show "set (map fst ?M) \<subseteq> {''png'', ''ico'', ''svg'', ''xml''}"
      by (rule manifest_tags)
    show "stdout s'
           = map2 (\<lambda>tag (dest, c). tag @ '' -> '' @ render dest) (map fst ?M) (written s')
             @ [''done'']"
      unfolding s'(2,3) map2_progress ..
  qed
qed

lemma files_after_untouched: "p \<notin> fst ` set ws \<Longrightarrow> files_after ws p = None"
  by (simp add: files_after_def map_of_eq_None_iff)

text \<open>
  C5. A run of \<^verbatim>\<open>main\<close> reads the file system at the source path only: two runs with the
  same arguments on file systems that agree on the content of the source file end with the
  same result, the same files written with the same content, and the same lines printed.
  In particular a second run, on the file system the first run left behind, reproduces
  the first one, provided the source is not one of the destinations.
\<close>

theorem main_reads_source_only:
  "(disk1 (source a) = disk2 (source a) \<longrightarrow>
      main P ROOT disk1 a s = main P ROOT disk2 a s)
   \<and> (source a \<notin> fst ` set (written (snd (main P ROOT disk1 a initial))) \<longrightarrow>
      main P ROOT (disk1 ++ files_after (written (snd (main P ROOT disk1 a initial)))) a initial
        = main P ROOT disk1 a initial)"
proof (rule conjI; rule impI)
  assume "disk1 (source a) = disk2 (source a)"
  then show "main P ROOT disk1 a s = main P ROOT disk2 a s"
    by (simp add: main_def Let_def)
next
  let ?ws = "written (snd (main P ROOT disk1 a initial))"
  assume "source a \<notin> fst ` set ?ws"
  then have "files_after ?ws (source a) = None" by (rule files_after_untouched)
  then have "(disk1 ++ files_after ?ws) (source a) = disk1 (source a)"
    by (simp add: map_add_def)
  then show "main P ROOT (disk1 ++ files_after ?ws) a initial = main P ROOT disk1 a initial"
    by (simp add: main_def Let_def)
qed

lemma manifest_paths:
  "map fst (map snd (manifest P ROOT B RB)) =
     map (\<lambda>p. ROOT @ p)
      [[''packages'', ''branding'', ''icons'', ''tasktrove-icon.png''],
       [''packages'', ''branding'', ''icons'', ''tasktrove-icon.svg''],
       [''apps'', ''import.pro'', ''public'', ''tasktrove-icon.svg''],
       [''apps'', ''docs.pro'', ''docs'', ''public'', ''tasktrove-icon.svg''],
       [''apps'', ''web'', ''app'', ''icon0.svg''],
       [''apps'', ''web.pro'', ''app'', ''icon0.svg''],
       [''apps'', ''mobile.pro'', ''app'', ''icon0.svg''],
       [''apps'', ''web'', ''app'', ''icon-rounded.svg''],
       [''apps'', ''web.pro'', ''app'', ''icon-rounded.svg''],
       [''apps'', ''mobile.pro'', ''app'', ''icon-rounded.svg''],
       [''apps'', ''web'', ''public'', ''icon-rounded.svg''],
       [''apps'', ''web.pro'', ''public'', ''icon-rounded.svg''],
       [''apps'', ''mobile.pro'', ''public'', ''icon-rounded.svg''],
       [''apps'', ''web'', ''app'', ''icon1.png''],
       [''apps'', ''mobile.pro'', ''app'', ''icon1.png''],
       [''apps'', ''mobile.pro'', ''app'', ''icon.png''],
       [''apps'', ''web'', ''app'', ''apple-icon.png''],
       [''apps'', ''mobile.pro'', ''app'', ''apple-icon.png''],
       [''apps'', ''web'', ''app'', ''favicon.ico''],
       [''apps'', ''import.pro'', ''app'', ''favicon.ico''],
       [''apps'', ''mobile.pro'', ''app'', ''favicon.ico''],
       [''apps'', ''mobile.pro'', ''android'', ''app'', ''src'', ''main'', ''res'', ''mipmap-mdpi'', ''ic_launcher.png''],
       [''apps'', ''mobile.pro'', ''android'', ''app'', ''src'', ''main'', ''res'', ''mipmap-mdpi'', ''ic_launcher_round.png''],
       [''apps'', ''mobile.pro'', ''android'', ''app'', ''src'', ''main'', ''res'', ''mipmap-hdpi'', ''ic_launcher.png''],
       [''apps'', ''mobile.pro'', ''android'', ''app'', ''src'', ''main'', ''res'', ''mipmap-hdpi'', ''ic_launcher_round.png''],
       [''apps'', ''mobile.pro'', ''android'', ''app'', ''src'', ''main'', ''res'', ''mipmap-xhdpi'', ''ic_launcher.png''],
       [''apps'', ''mobile.pro'', ''android'', ''app'', ''src'', ''main'', ''res'', ''mipmap-xhdpi'', ''ic_launcher_round.png''],
       [''apps'', ''mobile.pro'', ''android'', ''app'', ''src'', ''main'', ''res'', ''mipmap-xxhdpi'', ''ic_launcher.png''],
       [''apps'', ''mobile.pro'', ''android'', ''app'', ''src'', ''main'', ''res'', ''mipmap-xxhdpi'', ''ic_launcher_round.png''],
       [''apps'', ''mobile.pro'', ''android'', ''app'', ''src'', ''main'', ''res'', ''mipmap-xxxhdpi'', ''ic_launcher.png''],
       [''apps'', ''mobile.pro'', ''android'', ''app'', ''src'', ''main'', ''res'', ''mipmap-xxxhdpi'', ''ic_launcher_round.png''],
       [''apps'', ''mobile.pro'', ''android'', ''app'', ''src'', ''main'', ''res'', ''mipmap-mdpi'', ''ic_launcher_foreground.png''],
       [''apps'', ''mobile.pro'', ''android'', ''app'', ''src'', ''main'', ''res'', ''mipmap-hdpi'', ''ic_launcher_foreground.png''],
       [''apps'', ''mobile.pro'', ''android'', ''app'', ''src'', ''main'', ''res'', ''mipmap-xhdpi'', ''ic_launcher_foreground.png''],
       [''apps'', ''mobile.pro'', ''android'', ''app'', ''src'', ''main'', ''res'', ''mipmap-xxhdpi'', ''ic_launcher_foreground.png''],
       [''apps'', ''mobile.pro'', ''android'', ''app'', ''src'', ''main'', ''res'', ''mipmap-xxxhdpi'', ''ic_launcher_foreground.png''],
       [''apps'', ''mobile.pro'', ''android'', ''app'', ''src'', ''main'', ''res'', ''drawable-v24'', ''ic_launcher_foreground.xml''],
       [''apps'', ''mobile.pro'', ''android'', ''app'', ''src'', ''main'', ''res'', ''drawable'', ''ic_launcher_background.xml''],
       [''apps'', ''mobile.pro'', ''android'', ''app'', ''src'', ''main'', ''res'', ''drawable'', ''ic_stat_tasktrove.png'']]"
  by (simp add: manifest_def public_targets_def icon0_targets_def icon_rounded_targets_def
        png_sizes_def favicon_targets_def classic_def foreground_def res_root_def)

lemma manifest_length: "length (manifest P ROOT B RB) = 39"
  using arg_cong [OF manifest_paths [of P ROOT B RB], of length] by simp

lemma manifest_distinct: "distinct (map fst (map snd (manifest P ROOT B RB)))"
  unfolding manifest_paths by (simp add: distinct_map inj_on_def)

lemma files_after_distinct:
  assumes "distinct (map fst ws)" and "(p, c) \<in> set ws"
  shows "files_after ws p = Some c"
  unfolding files_after_def using assms by (intro map_of_is_SomeI) (simp_all add: rev_map [symmetric])

lemma classic_in_manifest:
  assumes "(folder, S) \<in> set classic"
  shows "(res_root ROOT @ [folder, ''ic_launcher.png''], launcher_png P B S)
           \<in> set (map snd (manifest P ROOT B RB))"
    and "(res_root ROOT @ [folder, ''ic_launcher_round.png''], launcher_png P B S)
           \<in> set (map snd (manifest P ROOT B RB))"
  using assms by (auto simp: manifest_def classic_def)

lemma padded_two_thirds:
  assumes "(folder, S) \<in> set classic" and "img < next_ref s"
  shows "\<exists>s1. padded P img S (Finite (6004799503160661 / 9007199254740992)) s
            = (Inr (next_ref s), s1)
     \<and> png_file P (objs s1 (next_ref s)) = launcher_png P (objs s img) S"
proof -
  have x: "0 \<le> S"
    "int_of_product S (Finite (6004799503160661 / 9007199254740992)) = Inr (S * 2 div 3)"
    "1 \<le> S * 2 div 3"
    using launcher_sizes [of "(folder, S)"] assms(1) by simp_all
  from padded_result [OF x assms(2), of P] show ?thesis
    by (auto simp: launcher_png_def)
qed

text \<open>
  C8. In a run that completes, for each of the five classic densities (48, 72, 96, 144,
  192) the file \<^verbatim>\<open>ic_launcher.png\<close> and the file \<^verbatim>\<open>ic_launcher_round.png\<close> of its
  folder end with the same content: the PNG encoding of the canvas that \<^verbatim>\<open>padded\<close>
  returns for the base image at that size and the scale \<^verbatim>\<open>2 / 3\<close>.
\<close>

theorem classic_launcher_pair_identical:
  assumes "disk (source a) = Some c" and "open_rgba P c = Inr B"
    and "0 < width B" and "0 < height B"
    and "int_of_product (min (width B) (height B)) (radius a) = Inr r"
  shows "\<exists>s'. main P ROOT disk a initial = (Inr (), s')
    \<and> (\<forall>(folder, S) \<in> set classic.
          files_after (written s') (res_root ROOT @ [folder, ''ic_launcher.png''])
            = Some (launcher_png P B S)
          \<and> files_after (written s') (res_root ROOT @ [folder, ''ic_launcher_round.png''])
            = Some (launcher_png P B S)
          \<and> (\<forall>s img. img < next_ref s \<and> objs s img = B \<longrightarrow>
                (\<exists>s1. padded P img S (Finite (6004799503160661 / 9007199254740992)) s
                        = (Inr (next_ref s), s1)
                   \<and> launcher_png P B S = png_file P (objs s1 (next_ref s)))))"
proof -
  let ?M = "manifest P ROOT B (rounded_image P B r)"
  from main_success [of disk a c P B r ROOT] assms obtain s' where
    s': "main P ROOT disk a initial = (Inr (), s')" "written s' = map snd ?M"
    by auto
  have "files_after (written s') (res_root ROOT @ [folder, ''ic_launcher.png''])
            = Some (launcher_png P B S)
          \<and> files_after (written s') (res_root ROOT @ [folder, ''ic_launcher_round.png''])
            = Some (launcher_png P B S)
          \<and> (\<forall>s img. img < next_ref s \<and> objs s img = B \<longrightarrow>
                (\<exists>s1. padded P img S (Finite (6004799503160661 / 9007199254740992)) s
                        = (Inr (next_ref s), s1)
                   \<and> launcher_png P B S = png_file P (objs s1 (next_ref s))))"
    if "(folder, S) \<in> set classic" for folder S
    unfolding s'(2)
    using files_after_distinct [OF manifest_distinct classic_in_manifest(1) [OF that]]
      files_after_distinct [OF manifest_distinct classic_in_manifest(2) [OF that]]
      padded_two_thirds [OF that, of _ _ P]
    by metis
  with s'(1) show ?thesis by blast
qed

lemma sample_open:
  "\<exists>B. open_rgba sample_pil (Binary [1, 1, 255, 0, 0, 255]) = Inr B
      \<and> width B = 1 \<and> height B = 1"
  by (simp add: sample_pil_def raw_open_def)

lemma fifth_of_1: "int_of_product 1 (Finite (3602879701896397 / 18014398509481984)) = Inr 0"
  by (simp add: int_of_product_def py_mul_int_float_def float_of_int_exact
      round_double_eval [where e = "- 3"] round_half_even_def Let_def)

theorem classic_launcher_pair_identical_witness:
  "fst (main sample_pil [''repo''] sample_disk sample_args initial) = Inr ()
   \<and> files_after (written (snd (main sample_pil [''repo''] sample_disk sample_args initial)))
        (res_root [''repo''] @ [''mipmap-xhdpi'', ''ic_launcher.png''])
     = files_after (written (snd (main sample_pil [''repo''] sample_disk sample_args initial)))
        (res_root [''repo''] @ [''mipmap-xhdpi'', ''ic_launcher_round.png''])
   \<and> files_after (written (snd (main sample_pil [''repo''] sample_disk sample_args initial)))
        (res_root [''repo''] @ [''mipmap-xhdpi'', ''ic_launcher.png'']) \<noteq> None"
proof -
  obtain B where B: "open_rgba sample_pil (Binary [1, 1, 255, 0, 0, 255]) = Inr B"
    "width B = 1" "height B = 1"
    using sample_open by blast
  have d: "sample_disk (source sample_args) = Some (Binary [1, 1, 255, 0, 0, 255])"
    by (simp add: sample_disk_def sample_args_def)
  have i: "int_of_product (min (width B) (height B)) (radius sample_args) = Inr 0"
    using fifth_of_1 by (simp add: B sample_args_def)
  have m: "(''mipmap-xhdpi'', 96) \<in> set classic" by (simp add: classic_def)
  from classic_launcher_pair_identical
         [of sample_disk sample_args "Binary [1, 1, 255, 0, 0, 255]" sample_pil B 0 "[''repo'']"]
       d B i obtain s' where
    "main sample_pil [''repo''] sample_disk sample_args initial = (Inr (), s')"
    "\<forall>(folder, S) \<in> set classic.
          files_after (written s') (res_root [''repo''] @ [folder, ''ic_launcher.png''])
            = Some (launcher_png sample_pil B S)
          \<and> files_after (written s') (res_root [''repo''] @ [folder, ''ic_launcher_round.png''])
            = Some (launcher_png sample_pil B S)
          \<and> (\<forall>s img. img < next_ref s \<and> objs s img = B \<longrightarrow>
                (\<exists>s1. padded sample_pil img S (Finite (6004799503160661 / 9007199254740992)) s
                        = (Inr (next_ref s), s1)
                   \<and> launcher_png sample_pil B S = png_file sample_pil (objs s1 (next_ref s))))"
    by auto
  with m show ?thesis by fastforce
qed

theorem main_exit_behaviour_witness:
  "main sample_pil [''repo''] Map.empty sample_args initial
     = (Inl (SystemExit ''Source not found: /icon.png''), initial)
   \<and> fst (main sample_pil [''repo''] sample_disk sample_args initial) = Inr ()
   \<and> length (written (snd (main sample_pil [''repo''] sample_disk sample_args initial))) = 39
   \<and> length (stdout (snd (main sample_pil [''repo''] sample_disk sample_args initial))) = 40
   \<and> last (stdout (snd (main sample_pil [''repo''] sample_disk sample_args initial))) = ''done''"
proof -
  obtain B where B: "open_rgba sample_pil (Binary [1, 1, 255, 0, 0, 255]) = Inr B"
    "width B = 1" "height B = 1"
    using sample_open by blast
  have d: "sample_disk (source sample_args) = Some (Binary [1, 1, 255, 0, 0, 255])"
    by (simp add: sample_disk_def sample_args_def)
  have i: "int_of_product (min (width B) (height B)) (radius sample_args) = Inr 0"
    using fifth_of_1 by (simp add: B sample_args_def)
  have 1: "main sample_pil [''repo''] Map.empty sample_args initial
     = (Inl (SystemExit ''Source not found: /icon.png''), initial)"
    using main_exit_behaviour [of Map.empty sample_args sample_pil "[''repo'']" initial]
    by (simp add: sample_args_def render_def)
  from main_exit_behaviour
         [of sample_disk sample_args sample_pil "[''repo'']" initial
             "Binary [1, 1, 255, 0, 0, 255]" B 0] d B i
  obtain s' tags where
    s': "main sample_pil [''repo''] sample_disk sample_args initial = (Inr (), s')"
      "length tags = length (written s')"
      "stdout s' = map2 (\<lambda>tag (dest, c). tag @ '' -> '' @ render dest) tags (written s')
                   @ [''done'']"
    by auto
  from main_success
         [of sample_disk sample_args "Binary [1, 1, 255, 0, 0, 255]" sample_pil B 0 "[''repo'']"]
       d B i s'(1)
  have "length (written s') = 39" by (auto simp: manifest_length)
  then show ?thesis using 1 s' by simp
qed

theorem main_exit_behaviour_counterexample:
  "fst (main sample_pil [''repo''] sample_disk \<lparr>source = [''icon.png''], radius = NaN\<rparr> initial)
     = Inl ValueError
   \<and> stdout (snd (main sample_pil [''repo''] sample_disk
                    \<lparr>source = [''icon.png''], radius = NaN\<rparr> initial)) = []
   \<and> fst (main sample_pil [''repo''] [[''icon.png''] \<mapsto> Text ''not an image''] sample_args
            initial) = Inl UnidentifiedImageError
   \<and> stdout (snd (main sample_pil [''repo''] [[''icon.png''] \<mapsto> Text ''not an image'']
                    sample_args initial)) = []"
  by (simp add: main_def bind_def sample_disk_def sample_args_def sample_pil_def raw_open_def
        alloc_def rounded_def int_of_product_def py_mul_int_float_def float_of_int_exact)

theorem main_reads_source_only_witness:
  "main sample_pil [''repo''] sample_disk sample_args initial
     = main sample_pil [''repo''] (sample_disk([''notes.txt''] \<mapsto> Text ''unrelated''))
         sample_args initial
   \<and> main sample_pil [''repo'']
        (sample_disk ++ files_after (written (snd (main sample_pil [''repo''] sample_disk
                                                   sample_args initial))))
        sample_args initial
     = main sample_pil [''repo''] sample_disk sample_args initial
   \<and> fst (main sample_pil [''repo''] sample_disk sample_args initial) = Inr ()"
proof -
  obtain B where B: "open_rgba sample_pil (Binary [1, 1, 255, 0, 0, 255]) = Inr B"
    "width B = 1" "height B = 1"
    using sample_open by blast
  have d: "sample_disk (source sample_args) = Some (Binary [1, 1, 255, 0, 0, 255])"
    by (simp add: sample_disk_def sample_args_def)
  have i: "int_of_product (min (width B) (height B)) (radius sample_args) = Inr 0"
    using fifth_of_1 by (simp add: B sample_args_def)
  from main_success
         [of sample_disk sample_args "Binary [1, 1, 255, 0, 0, 255]" sample_pil B 0 "[''repo'']"]
       d B i
  obtain s' where s': "main sample_pil [''repo''] sample_disk sample_args initial = (Inr (), s')"
    "written s' = map snd (manifest sample_pil [''repo''] B (rounded_image sample_pil B 0))"
    by auto
  have "source sample_args \<notin> set (map fst (written s'))"
    unfolding s'(2) manifest_paths by (simp add: sample_args_def)
  then have n: "source sample_args
                  \<notin> fst ` set (written (snd (main sample_pil [''repo''] sample_disk
                                                sample_args initial)))"
    by (simp add: s'(1))
  have e: "sample_disk (source sample_args)
           = (sample_disk([''notes.txt''] \<mapsto> Text ''unrelated'')) (source sample_args)"
    by (simp add: sample_args_def)
  note t = main_reads_source_only
         [of sample_disk sample_args "sample_disk([''notes.txt''] \<mapsto> Text ''unrelated'')"
             sample_pil "[''repo'']" initial]
  show ?thesis
  proof (intro conjI)
    show "main sample_pil [''repo''] sample_disk sample_args initial
     = main sample_pil [''repo''] (sample_disk([''notes.txt''] \<mapsto> Text ''unrelated''))
         sample_args initial"
      by (rule mp [OF conjunct1 [OF t] e])
    show "main sample_pil [''repo'']
        (sample_disk ++ files_after (written (snd (main sample_pil [''repo''] sample_disk
                                                   sample_args initial))))
        sample_args initial
     = main sample_pil [''repo''] sample_disk sample_args initial"
      by (rule mp [OF conjunct2 [OF t] n])
    show "fst (main sample_pil [''repo''] sample_disk sample_args initial) = Inr ()"
      by (simp add: s'(1))
  qed
qed

section \<open>The vector wrapper\<close>

lemma index_of_nth:
  "distinct xs \<Longrightarrow> n < length xs \<Longrightarrow> index_of (xs ! n) xs = Some n"
proof (induction xs arbitrary: n)
  case Nil
  then show ?case by simp
next
  case (Cons y ys)
  show ?case
  proof (cases n)
    case 0
    then show ?thesis by simp
  next
    case (Suc m)
    then have "ys ! m \<noteq> y" using Cons.prems by auto
    then show ?thesis using Suc Cons by simp
  qed
qed

lemma b64chars_length: "length b64chars = 64"
  by (simp add: b64chars_def)

lemma b64chars_distinct: "distinct b64chars"
  by (simp add: b64chars_def)

lemma b64val_b64char: "n < 64 \<Longrightarrow> b64val (b64char n) = Some n"
  unfolding b64val_def b64char_def
  by (rule index_of_nth [OF b64chars_distinct]) (simp add: b64chars_length)

lemma b64char_in: "n < 64 \<Longrightarrow> b64char n \<in> set b64chars"
  unfolding b64char_def by (rule nth_mem) (simp add: b64chars_length)

lemma b64char_not_pad: "n < 64 \<Longrightarrow> b64char n \<noteq> CHR ''=''"
  using b64char_in [of n] by (auto simp: b64chars_def)

lemma b64char_not_apos: "n < 64 \<Longrightarrow> b64char n \<noteq> CHR 0x27"
  using b64char_in [of n] by (auto simp: b64chars_def)

lemma sextets:
  fixes a b c :: uint8
  shows "unat a div 4 < 64" "unat a mod 4 * 16 < 64" "unat a mod 4 * 16 + unat b div 16 < 64"
    "unat b mod 16 * 4 < 64" "unat b mod 16 * 4 + unat c div 64 < 64" "unat c mod 64 < 64"
  using unat8_less [of a] unat8_less [of b] unat8_less [of c] by simp_all

lemma octets:
  fixes a b c :: uint8
  shows "of_nat (unat a div 4 * 4 + unat a mod 4 * 16 div 16) = a"
    "of_nat (unat a div 4 * 4 + (unat a mod 4 * 16 + unat b div 16) div 16) = a"
    "of_nat ((unat a mod 4 * 16 + unat b div 16) mod 16 * 16 + unat b mod 16 * 4 div 4) = b"
    "of_nat ((unat a mod 4 * 16 + unat b div 16) mod 16 * 16
             + (unat b mod 16 * 4 + unat c div 64) div 4) = b"
    "of_nat ((unat b mod 16 * 4 + unat c div 64) mod 4 * 64 + unat c mod 64) = c"
proof -
  have 1: "unat a div 4 * 4 + unat a mod 4 * 16 div 16 = unat a" by simp
  have 2: "unat a div 4 * 4 + (unat a mod 4 * 16 + unat b div 16) div 16 = unat a"
    using unat8_less [of b] by simp
  have 3: "(unat a mod 4 * 16 + unat b div 16) mod 16 * 16 + unat b mod 16 * 4 div 4 = unat b"
    using unat8_less [of b] by simp
  have 4: "(unat a mod 4 * 16 + unat b div 16) mod 16 * 16
             + (unat b mod 16 * 4 + unat c div 64) div 4 = unat b"
    using unat8_less [of b] unat8_less [of c] by simp
  have 5: "(unat b mod 16 * 4 + unat c div 64) mod 4 * 64 + unat c mod 64 = unat c"
    using unat8_less [of c] by simp
  show "of_nat (unat a div 4 * 4 + unat a mod 4 * 16 div 16) = a"
    "of_nat (unat a div 4 * 4 + (unat a mod 4 * 16 + unat b div 16) div 16) = a"
    "of_nat ((unat a mod 4 * 16 + unat b div 16) mod 16 * 16 + unat b mod 16 * 4 div 4) = b"
    "of_nat ((unat a mod 4 * 16 + unat b div 16) mod 16 * 16
             + (unat b mod 16 * 4 + unat c div 64) div 4) = b"
    "of_nat ((unat b mod 16 * 4 + unat c div 64) mod 4 * 64 + unat c mod 64) = c"
    unfolding 1 2 3 4 5 by simp_all
qed

lemma b64decode_pad2:
  "x < 64 \<Longrightarrow> y < 64 \<Longrightarrow>
   b64decode [b64char x, b64char y, CHR ''='', CHR ''='']
     = Some [of_nat (x * 4 + y div 16)]"
  by (simp add: b64val_b64char)

lemma b64decode_pad1:
  "x < 64 \<Longrightarrow> y < 64 \<Longrightarrow> z < 64 \<Longrightarrow>
   b64decode [b64char x, b64char y, b64char z, CHR ''='']
     = Some [of_nat (x * 4 + y div 16), of_nat (y mod 16 * 16 + z div 4)]"
  by (simp add: b64val_b64char b64char_not_pad)

lemma b64decode_block:
  "x < 64 \<Longrightarrow> y < 64 \<Longrightarrow> z < 64 \<Longrightarrow> w < 64 \<Longrightarrow>
   b64decode (b64char x # b64char y # b64char z # b64char w # rest)
     = map_option (\<lambda>bs. of_nat (x * 4 + y div 16) # of_nat (y mod 16 * 16 + z div 4)
                         # of_nat (z mod 4 * 64 + w) # bs) (b64decode rest)"
  by (simp add: b64val_b64char b64char_not_pad split: option.splits)

lemma b64decode_b64encode: "b64decode (b64encode bs) = Some bs"
proof (induction bs rule: b64encode.induct)
  case 1
  show ?case by simp
next
  case (2 a)
  show ?case
    unfolding b64encode.simps b64decode_pad2 [OF sextets(1) sextets(2)] octets ..
next
  case (3 a b)
  show ?case
    unfolding b64encode.simps b64decode_pad1 [OF sextets(1) sextets(3) sextets(4)] octets ..
next
  case (4 a b c rest)
  show ?case
    unfolding b64encode.simps append_Cons append_Nil
      b64decode_block [OF sextets(1) sextets(3) sextets(5) sextets(6)] "4.IH" octets
    by simp
qed

lemma b64encode_no_apos: "CHR 0x27 \<notin> set (b64encode bs)"
  using b64char_not_apos [symmetric]
  by (induction bs rule: b64encode.induct) (simp_all add: sextets)

lemma split_on_not_Nil [simp]: "split_on c xs \<noteq> []"
  by (induction xs) (auto split: list.splits)

lemma split_on_none: "c \<notin> set xs \<Longrightarrow> split_on c xs = [xs]"
  by (induction xs) auto

lemma split_on_append:
  "c \<notin> set xs \<Longrightarrow> split_on c (xs @ c # ys) = xs # split_on c ys"
proof (induction xs)
  case Nil
  show ?case by simp
next
  case (Cons x xs)
  then have "x \<noteq> c" "split_on c (xs @ c # ys) = xs # split_on c ys" by auto
  then show ?case by simp
qed

lemma split_on_join:
  "segs \<noteq> [] \<Longrightarrow> \<forall>s \<in> set segs. c \<notin> set s \<Longrightarrow> split_on c (join c segs) = segs"
proof (induction c segs rule: join.induct)
  case (1 c)
  then show ?case by simp
next
  case (2 c s)
  then show ?case by (simp add: split_on_none)
next
  case (3 c s t ts)
  have a: "c \<notin> set s" using "3.prems" by simp
  have "split_on c (join c (t # ts)) = t # ts" using 3 by simp
  then show ?case
    unfolding join.simps split_on_append [OF a] by simp
qed

lemma digit_in: "n < 10 \<Longrightarrow> digit n \<in> set ''0123456789''"
  unfolding digit_def by (rule nth_mem) simp

lemma dec_digits: "set (dec n) \<subseteq> set ''0123456789''"
proof (induction n rule: dec.induct)
  case (1 n)
  show ?case
  proof (cases "n < 10")
    case True
    then show ?thesis using digit_in [of n] by (subst dec.simps) simp
  next
    case False
    then show ?thesis
      using 1 digit_in [of "n mod 10"] by (subst dec.simps) simp
  qed
qed

lemma dec_not_Nil: "dec n \<noteq> []"
  by (subst dec.simps) simp

lemma dec_avoids: "c \<notin> set ''0123456789'' \<Longrightarrow> c \<notin> set (dec n)"
  using dec_digits [of n] by blast

lemma format_int_no_apos: "CHR 0x27 \<notin> set (format_int i)"
  by (simp add: format_int_def dec_avoids)

lemma format_int_no_space: "CHR '' '' \<notin> set (format_int i)"
  by (simp add: format_int_def dec_avoids)

lemma digit_val_digit: "n < 10 \<Longrightarrow> digit_val (digit n) = Some n"
  unfolding digit_val_def digit_def by (rule index_of_nth) simp_all

lemma read_digits_append:
  "read_digits acc (xs @ ys)
     = (case read_digits acc xs of None \<Rightarrow> None | Some a \<Rightarrow> read_digits a ys)"
  by (induction xs arbitrary: acc) (simp_all split: option.splits)

lemma read_digits_dec: "read_digits 0 (dec n) = Some n"
proof (induction n rule: dec.induct)
  case (1 n)
  show ?case
  proof (cases "n < 10")
    case True
    then show ?thesis by (subst dec.simps) (simp add: digit_val_digit)
  next
    case False
    then have "read_digits 0 (dec (n div 10)) = Some (n div 10)" using 1 by simp
    then show ?thesis
      using False by (subst dec.simps) (simp add: read_digits_append digit_val_digit)
  qed
qed

lemma dec_hd: "hd (dec n) \<noteq> CHR ''-''"
proof -
  have "hd (dec n) \<in> set (dec n)" using dec_not_Nil by simp
  moreover have "CHR ''-'' \<notin> set (dec n)" by (rule dec_avoids) simp
  ultimately show ?thesis by metis
qed

lemma read_int_format_int: "read_int (format_int i) = Some i"
  by (auto simp: read_int_def format_int_def read_nat_def dec_not_Nil dec_hd read_digits_dec)

lemma svg_text_pieces:
  assumes "CHR 0x27 \<notin> set w" and "CHR 0x27 \<notin> set h" and "CHR 0x27 \<notin> set b"
  shows "split_on (CHR 0x27) (svg_text w h b) =
    [''<svg xmlns='', ''http://www.w3.org/2000/svg'', '' width='', w, '' height='', h,
     '' viewBox='', ''0 0 '' @ w @ '' '' @ h, ''><image href='',
     ''data:image/png;base64,'' @ b, '' width='', w, '' height='', h,
     ''/><style>@media (prefers-color-scheme: light){:root{filter:none;}}''
     @ ''@media (prefers-color-scheme: dark){:root{filter:none;}}</style></svg>'']"
proof -
  let ?segs = "[''<svg xmlns='', ''http://www.w3.org/2000/svg'', '' width='', w, '' height='', h,
     '' viewBox='', ''0 0 '' @ w @ '' '' @ h, ''><image href='',
     ''data:image/png;base64,'' @ b, '' width='', w, '' height='', h,
     ''/><style>@media (prefers-color-scheme: light){:root{filter:none;}}''
     @ ''@media (prefers-color-scheme: dark){:root{filter:none;}}</style></svg>'']"
  have j: "svg_text w h b = join (CHR 0x27) ?segs"
    by (simp add: svg_text_def apos_def)
  have "\<forall>s \<in> set ?segs. CHR 0x27 \<notin> set s" using assms by simp
  then show ?thesis unfolding j by (intro split_on_join) simp_all
qed

lemma attr_names:
  "attr_name ''<svg xmlns='' = ''xmlns''" "attr_name '' width='' = ''width''"
  "attr_name '' height='' = ''height''" "attr_name '' viewBox='' = ''viewBox''"
  "attr_name ''><image href='' = ''href''"
  by (simp_all add: attr_name_def)

lemma svg_text_attributes:
  assumes "CHR 0x27 \<notin> set w" and "CHR 0x27 \<notin> set h" and "CHR 0x27 \<notin> set b"
  shows "attribute ''width'' (svg_text w h b) = Some w"
    and "attribute ''height'' (svg_text w h b) = Some h"
    and "attribute ''viewBox'' (svg_text w h b) = Some (''0 0 '' @ w @ '' '' @ h)"
    and "attribute ''href'' (svg_text w h b) = Some (''data:image/png;base64,'' @ b)"
  unfolding attribute_def svg_text_pieces [OF assms]
  by (simp_all add: attr_names)

lemma viewbox_numbers:
  assumes "CHR '' '' \<notin> set w" and "CHR '' '' \<notin> set h"
  shows "split_on CHR '' '' (''0 0 '' @ w @ '' '' @ h) = [''0'', ''0'', w, h]"
proof -
  have j: "''0 0 '' @ w @ '' '' @ h = join CHR '' '' [''0'', ''0'', w, h]" by simp
  show ?thesis unfolding j using assms by (intro split_on_join) simp_all
qed

lemma read_int_0: "read_int ''0'' = Some 0"
  using read_int_format_int [of 0] by (simp add: format_int_def dec.simps digit_def)

text \<open>
  C3. For every image, the file \<^verbatim>\<open>save_svg_from_png\<close> writes is a document whose
  \<^verbatim>\<open>width\<close> and \<^verbatim>\<open>height\<close> attributes read back as the width and the height of the
  image, whose \<^verbatim>\<open>viewBox\<close> reads as 0, 0, width, height, and whose \<^verbatim>\<open>href\<close> is the
  data URI \<^verbatim>\<open>data:image/png;base64,\<close> followed by a payload that base64 decoding turns
  back into exactly the bytes of the PNG encoding of the image.
\<close>

theorem svg_declares_size_and_embeds_png:
  "\<exists>svg. written (snd (save_svg_from_png P img dest s)) = written s @ [(dest, Text svg)]
     \<and> Option.bind (attribute ''width'' svg) read_int = Some (width (objs s img))
     \<and> Option.bind (attribute ''height'' svg) read_int = Some (height (objs s img))
     \<and> map_option (map read_int \<circ> split_on CHR '' '') (attribute ''viewBox'' svg)
         = Some [Some 0, Some 0, Some (width (objs s img)), Some (height (objs s img))]
     \<and> (\<exists>payload. attribute ''href'' svg = Some (''data:image/png;base64,'' @ payload)
           \<and> b64decode payload = Some (png_encode P (objs s img)))"
proof -
  let ?w = "format_int (width (objs s img))" and ?h = "format_int (height (objs s img))"
  let ?b = "b64encode (png_encode P (objs s img))"
  note a = svg_text_attributes [OF format_int_no_apos format_int_no_apos b64encode_no_apos,
      of "width (objs s img)" "height (objs s img)" "png_encode P (objs s img)"]
  have w: "written (snd (save_svg_from_png P img dest s))
           = written s @ [(dest, Text (svg_text ?w ?h ?b))]"
    by (simp add: save_svg_from_png_def ensure_parent_def write_file_def print_line_def Let_def)
  have v: "map read_int (split_on CHR '' '' (''0 0 '' @ ?w @ '' '' @ ?h))
           = [Some 0, Some 0, Some (width (objs s img)), Some (height (objs s img))]"
    unfolding viewbox_numbers [OF format_int_no_space format_int_no_space]
    by (simp add: read_int_0 read_int_format_int)
  show ?thesis
  proof (intro exI conjI)
    show "written (snd (save_svg_from_png P img dest s))
           = written s @ [(dest, Text (svg_text ?w ?h ?b))]" by (rule w)
    show "Option.bind (attribute ''width'' (svg_text ?w ?h ?b)) read_int
            = Some (width (objs s img))"
      unfolding a by (simp add: read_int_format_int)
    show "Option.bind (attribute ''height'' (svg_text ?w ?h ?b)) read_int
            = Some (height (objs s img))"
      unfolding a by (simp add: read_int_format_int)
    show "map_option (map read_int \<circ> split_on CHR '' '') (attribute ''viewBox'' (svg_text ?w ?h ?b))
         = Some [Some 0, Some 0, Some (width (objs s img)), Some (height (objs s img))]"
      unfolding a using v by simp
    show "attribute ''href'' (svg_text ?w ?h ?b) = Some (''data:image/png;base64,'' @ ?b)"
      by (rule a)
    show "b64decode ?b = Some (png_encode P (objs s img))" by (rule b64decode_b64encode)
  qed
qed

end
